theory Spec2Isabelle
  imports Main "HOL-Library.Word"
begin

unbundle bit_operations_syntax

section \<open>Machine integers, bytes and host byte order\<close>

type_synonym u8 = "8 word"
type_synonym u32 = "32 word"
type_synonym u64 = "64 word"

text \<open>
  The format tool and the kernel module may run on hosts of either byte order; the
  conversion macros \<open>htole32\<close>, \<open>le32toh\<close> and \<open>htole64\<close> depend on it, and so does
  the object representation of an integer that is stored through a struct pointer.
\<close>

datatype endian = LittleEndian | BigEndian

text \<open>The \<open>n\<close> low bytes of a word, least significant byte first.\<close>

definition le_bytes :: "nat \<Rightarrow> 'a::len word \<Rightarrow> u8 list" where
  "le_bytes n w = map (\<lambda>k. ucast (drop_bit (8 * k) w)) [0..<n]"

text \<open>The word whose least significant byte comes first in the list.\<close>

fun le_word :: "u8 list \<Rightarrow> 'a::len word" where
  "le_word [] = 0"
| "le_word (b # bs) = ucast b OR push_bit 8 (le_word bs)"

text \<open>
  Object representation: the bytes a host keeps in memory for an integer of \<open>n\<close> bytes,
  and the integer a host reads from such bytes.
\<close>

definition mem_bytes :: "endian \<Rightarrow> nat \<Rightarrow> 'a::len word \<Rightarrow> u8 list" where
  "mem_bytes h n w = (case h of LittleEndian \<Rightarrow> le_bytes n w | BigEndian \<Rightarrow> rev (le_bytes n w))"

definition mem_word :: "endian \<Rightarrow> u8 list \<Rightarrow> 'a::len word" where
  "mem_word h bs = (case h of LittleEndian \<Rightarrow> le_word bs | BigEndian \<Rightarrow> le_word (rev bs))"

definition bswap32 :: "u32 \<Rightarrow> u32" where
  "bswap32 w = le_word (rev (le_bytes 4 w))"

definition bswap64 :: "u64 \<Rightarrow> u64" where
  "bswap64 w = le_word (rev (le_bytes 8 w))"

definition htole32 :: "endian \<Rightarrow> u32 \<Rightarrow> u32" where
  "htole32 h x = (case h of LittleEndian \<Rightarrow> x | BigEndian \<Rightarrow> bswap32 x)"

definition le32toh :: "endian \<Rightarrow> u32 \<Rightarrow> u32" where
  "le32toh h x = (case h of LittleEndian \<Rightarrow> x | BigEndian \<Rightarrow> bswap32 x)"

definition htole64 :: "endian \<Rightarrow> u64 \<Rightarrow> u64" where
  "htole64 h x = (case h of LittleEndian \<Rightarrow> x | BigEndian \<Rightarrow> bswap64 x)"

text \<open>A \<open>uint64_t\<close> array as the bytes that \<open>write\<close> sends to the file.\<close>

definition u64s_bytes :: "endian \<Rightarrow> u64 list \<Rightarrow> u8 list" where
  "u64s_bytes h ws = concat (map (mem_bytes h 8) ws)"


section \<open>Constants of simplefs.h\<close>

text \<open>
  The header simplefs.h is not among the sources.

  Modelled from the spec: the block size is 4096 bytes. (The format tool's
  \<open>struct superblock\<close> agrees: eight 32-bit fields and 4064 bytes of padding
  "to match block size".)

  \<open>SIMPLEFS_INODES_PER_BLOCK\<close> and \<open>SIMPLEFS_MAGIC\<close> have no value in the sources or
  the spec. They are parameters \<open>ipb\<close> and \<open>mg\<close> of the functions that use them;
  \<open>ipb\<close> is never zero in a build (the code divides by it).
\<close>

definition SIMPLEFS_BLOCK_SIZE :: nat where
  "SIMPLEFS_BLOCK_SIZE = 4096"

definition SIMPLEFS_SB_BLOCK_NR :: nat where
  "SIMPLEFS_SB_BLOCK_NR = 0"

text \<open>The eight on-disk fields of \<open>struct simplefs_sb_info\<close>, in declaration order.\<close>

record simplefs_sb_info =
  magic :: u32
  nr_blocks :: u32
  nr_inodes :: u32
  nr_istore_blocks :: u32
  nr_ifree_blocks :: u32
  nr_bfree_blocks :: u32
  nr_free_inodes :: u32
  nr_free_blocks :: u32


section \<open>The format tool (mkfs.c)\<close>

subsection \<open>The process and its file descriptor\<close>

text \<open>
  The tool opens the image and writes it front to back, one block per \<open>write\<close> call,
  so the image is the list of buffers written so far. Two counters stand for the
  environment: how many more \<open>write\<close> calls transfer their whole buffer and how many more
  \<open>malloc\<close> calls succeed. \<open>stderr\<close> keeps the diagnostics.
\<close>

datatype diag =
    Usage
  | Perror_open
  | Perror_fstat
  | Perror_BLKGETSIZE64
  | NotLargeEnough int int
  | Perror_write_superblock
  | Perror_write_inode_store
  | Perror_write_ifree_blocks
  | Perror_write_bfree_blocks
  | Perror_write_data_blocks

record proc =
  image :: "u8 list list"
  wr_left :: nat
  heap_left :: nat
  stderr :: "diag list"

definition malloc :: "proc \<Rightarrow> bool \<times> proc" where
  "malloc p = (if heap_left p = 0 then (False, p)
               else (True, p\<lparr>heap_left := heap_left p - 1\<rparr>))"

text \<open>\<open>write\<close>: the flag says whether the call returned the buffer's size.\<close>

definition write_fd :: "proc \<Rightarrow> u8 list \<Rightarrow> bool \<times> proc" where
  "write_fd p buf = (if wr_left p = 0 then (False, p)
                     else (True, p\<lparr>image := image p @ [buf], wr_left := wr_left p - 1\<rparr>))"

definition fprintf_stderr :: "proc \<Rightarrow> diag \<Rightarrow> proc" where
  "fprintf_stderr p d = p\<lparr>stderr := stderr p @ [d]\<rparr>"

definition EXIT_FAILURE :: int where "EXIT_FAILURE = 1"
definition EXIT_SUCCESS :: int where "EXIT_SUCCESS = 0"

text \<open>
  A store through an index beyond the allocated block has no defined behaviour in C;
  the model stops with a fault there.
\<close>

datatype fault = BufferOverrun

subsection \<open>write_superblock\<close>

definition idiv_ceil :: "u32 \<Rightarrow> u32 \<Rightarrow> u32" where
  "idiv_ceil a b = (let ret = a div b in if a mod b \<noteq> 0 then ret + 1 else ret)"

text \<open>C's division of signed integers truncates towards zero.\<close>

definition tdiv :: "int \<Rightarrow> int \<Rightarrow> int" where
  "tdiv a b = sgn a * sgn b * (\<bar>a\<bar> div \<bar>b\<bar>)"

text \<open>
  The local variables of \<open>write_superblock\<close>. \<open>st_size\<close> is a signed 64-bit \<open>off_t\<close>;
  each local is a \<open>uint32_t\<close>, so the quotient is cut to 32 bits.
\<close>

record sb_locals =
  l_nr_blocks :: u32
  l_nr_inodes :: u32
  l_nr_istore_blocks :: u32
  l_nr_ifree_blocks :: u32
  l_nr_bfree_blocks :: u32
  l_nr_data_blocks :: u32

definition superblock_locals :: "u32 \<Rightarrow> int \<Rightarrow> sb_locals" where
  "superblock_locals ipb st_size =
    (let nr_blocks = (word_of_int (tdiv st_size (int SIMPLEFS_BLOCK_SIZE)) :: u32);
         nr_inodes = nr_blocks;
         md = nr_inodes mod ipb;
         nr_inodes = (if md \<noteq> 0 then nr_inodes + (ipb - md) else nr_inodes);
         nr_istore_blocks = idiv_ceil nr_inodes ipb;
         nr_ifree_blocks = idiv_ceil nr_inodes (of_nat (SIMPLEFS_BLOCK_SIZE * 8));
         nr_bfree_blocks = idiv_ceil nr_blocks (of_nat (SIMPLEFS_BLOCK_SIZE * 8));
         nr_data_blocks = nr_blocks - nr_istore_blocks - nr_ifree_blocks - nr_bfree_blocks
     in \<lparr>l_nr_blocks = nr_blocks, l_nr_inodes = nr_inodes,
         l_nr_istore_blocks = nr_istore_blocks, l_nr_ifree_blocks = nr_ifree_blocks,
         l_nr_bfree_blocks = nr_bfree_blocks, l_nr_data_blocks = nr_data_blocks\<rparr>)"

text \<open>The fields as the tool keeps them in \<open>sb->info\<close>: already converted by \<open>htole32\<close>.\<close>

definition superblock_info :: "endian \<Rightarrow> u32 \<Rightarrow> sb_locals \<Rightarrow> simplefs_sb_info" where
  "superblock_info h mg g =
     \<lparr>magic = htole32 h mg,
      nr_blocks = htole32 h (l_nr_blocks g),
      nr_inodes = htole32 h (l_nr_inodes g),
      nr_istore_blocks = htole32 h (l_nr_istore_blocks g),
      nr_ifree_blocks = htole32 h (l_nr_ifree_blocks g),
      nr_bfree_blocks = htole32 h (l_nr_bfree_blocks g),
      nr_free_inodes = htole32 h (l_nr_inodes g - 1),
      nr_free_blocks = htole32 h (l_nr_data_blocks g - 1)\<rparr>"

text \<open>\<open>struct superblock\<close> as bytes: the eight fields as the host stores them, then the padding.\<close>

definition superblock_bytes :: "endian \<Rightarrow> simplefs_sb_info \<Rightarrow> u8 list" where
  "superblock_bytes h sb =
     concat (map (mem_bytes h 4)
       [magic sb, nr_blocks sb, nr_inodes sb, nr_istore_blocks sb,
        nr_ifree_blocks sb, nr_bfree_blocks sb, nr_free_inodes sb, nr_free_blocks sb])
     @ replicate 4064 0"

definition write_superblock ::
  "endian \<Rightarrow> u32 \<Rightarrow> u32 \<Rightarrow> proc \<Rightarrow> int \<Rightarrow> simplefs_sb_info option \<times> proc" where
  "write_superblock h ipb mg p st_size =
     (case malloc p of
        (False, p0) \<Rightarrow> (None, p0)
      | (True, p0) \<Rightarrow>
          let sb = superblock_info h mg (superblock_locals ipb st_size) in
          (case write_fd p0 (superblock_bytes h sb) of
             (False, p1) \<Rightarrow> (None, p1)
           | (True, p1) \<Rightarrow> (Some sb, p1)))"

subsection \<open>The loop that writes one buffer to the following blocks\<close>

text \<open>
  \<open>for (i = 1; i < n; i++) { ret = write(fd, block, SIMPLEFS_BLOCK_SIZE); ... }\<close>,
  where a short write leaves with \<open>-1\<close>; the three region writers share it.
\<close>

function write_loop :: "u32 \<Rightarrow> u32 \<Rightarrow> u8 list \<Rightarrow> proc \<Rightarrow> int \<times> proc" where
  "write_loop i n buf p =
     (if i < n then
        (case write_fd p buf of
           (False, p') \<Rightarrow> (- 1, p')
         | (True, p') \<Rightarrow> write_loop (i + 1) n buf p')
      else (0, p))"
  by pat_completeness auto

lemma unat_succ_below: "(i :: u32) < n \<Longrightarrow> unat (i + 1) = Suc (unat i)"
proof -
  assume "i < n"
  then have "unat i < unat n" by (simp add: word_less_nat_alt)
  moreover have "unat n < 2 ^ 32" using unsigned_less [of n] by simp
  ultimately have "unat i + 1 < 2 ^ 32" by simp
  then show ?thesis by (simp add: unat_word_ariths)
qed

termination write_loop
  by (relation "measure (\<lambda>(i, n, buf, p). unat n - unat i)")
     (auto simp: unat_succ_below word_less_nat_alt)

declare write_loop.simps [simp del]

subsection \<open>write_inode_store\<close>

text \<open>
  Modelled from the spec: the layout of \<open>struct simplefs_inode\<close> (declared in the
  missing header) is mode, uid, gid, size, ctime, atime, mtime, blocks, nlink as 32-bit
  fields in this order, then the block pointer \<open>ei_block\<close> and the inline data.
  The root directory's mode is
  \<open>S_IFDIR | S_IRUSR | S_IRGRP | S_IROTH | S_IWUSR | S_IWGRP | S_IXUSR | S_IXGRP | S_IXOTH\<close>,
  octal 040775.
\<close>

definition root_mode :: u32 where
  "root_mode = 0x41FD"

definition root_inode_block :: "endian \<Rightarrow> u32 \<Rightarrow> u8 list" where
  "root_inode_block h first_data_block =
     (let rec = concat (map (mem_bytes h 4)
                  [htole32 h root_mode, 0, 0, htole32 h (of_nat SIMPLEFS_BLOCK_SIZE),
                   htole32 h 0, htole32 h 0, htole32 h 0,
                   htole32 h 1, htole32 h 2, htole32 h first_data_block])
      in rec @ replicate (SIMPLEFS_BLOCK_SIZE - length rec) 0)"

text \<open>
  The bound of the zero-filling loop is \<open>sb->info.nr_istore_blocks\<close> as stored, without
  \<open>le32toh\<close>.
\<close>

text \<open>The local \<open>first_data_block\<close> ("order of first data block").\<close>

definition first_data_block :: "endian \<Rightarrow> simplefs_sb_info \<Rightarrow> u32" where
  "first_data_block h sb =
     1 + le32toh h (nr_bfree_blocks sb) + le32toh h (nr_ifree_blocks sb)
       + le32toh h (nr_istore_blocks sb)"

definition write_inode_store :: "endian \<Rightarrow> proc \<Rightarrow> simplefs_sb_info \<Rightarrow> int \<times> proc" where
  "write_inode_store h p sb =
     (case malloc p of
        (False, p0) \<Rightarrow> (- 1, p0)
      | (True, p0) \<Rightarrow>
          (case write_fd p0 (root_inode_block h (first_data_block h sb)) of
             (False, p1) \<Rightarrow> (- 1, p1)
           | (True, p1) \<Rightarrow>
               write_loop 1 (nr_istore_blocks sb) (replicate SIMPLEFS_BLOCK_SIZE 0) p1))"

subsection \<open>write_ifree_blocks\<close>

text \<open>
  The block is used as an array of \<open>SIMPLEFS_BLOCK_SIZE / 8\<close> words of 64 bits;
  \<open>memset(ifree, 0xff, ...)\<close> sets every bit of every word.
\<close>

definition write_ifree_blocks :: "endian \<Rightarrow> proc \<Rightarrow> simplefs_sb_info \<Rightarrow> int \<times> proc" where
  "write_ifree_blocks h p sb =
     (case malloc p of
        (False, p0) \<Rightarrow> (- 1, p0)
      | (True, p0) \<Rightarrow>
          let ifree = replicate (SIMPLEFS_BLOCK_SIZE div 8) (- 1 :: u64);
              ifree = ifree[0 := htole64 h 0xfffffffffffffffe] in
          (case write_fd p0 (u64s_bytes h ifree) of
             (False, p1) \<Rightarrow> (- 1, p1)
           | (True, p1) \<Rightarrow>
               let ifree = ifree[0 := 0xffffffffffffffff] in
               write_loop 1 (le32toh h (nr_ifree_blocks sb)) (u64s_bytes h ifree) p1))"

subsection \<open>write_bfree_blocks\<close>

text \<open>
  The inner loop
  \<open>for (uint64_t mask = 0x1; mask; mask <<= 1) { line &= ~mask; nr_used--; if (!nr_used) break; }\<close>.
  The mask is \<open>1 << b\<close> for the bit position \<open>b\<close>; it becomes zero when shifted out.
\<close>

function fill_line :: "nat \<Rightarrow> u64 \<Rightarrow> u32 \<Rightarrow> u64 \<times> u32" where
  "fill_line b line nr_used =
     (let mask = (push_bit b 1 :: u64) in
      if mask = 0 then (line, nr_used)
      else
        let line' = line AND NOT mask;
            nr_used' = nr_used - 1 in
        if nr_used' = 0 then (line', nr_used')
        else fill_line (Suc b) line' nr_used')"
  by pat_completeness auto

lemma mask_nonzero_position: "(push_bit b 1 :: u64) \<noteq> 0 \<Longrightarrow> b < 64"
  by (rule ccontr) (simp add: push_bit_eq_mult not_less)

termination fill_line
  by (relation "measure (\<lambda>(b, line, nr_used). 64 - b)")
     (auto dest: mask_nonzero_position)

declare fill_line.simps [simp del]

text \<open>
  The outer loop \<open>while (nr_used) { ...; bfree[i] = htole64(line); i++; }\<close> over the one
  allocated block. The source comments "we suppose it won't go further than the first
  block"; a store at \<open>i\<close> beyond the block's last word is the fault.
\<close>

function mark_used :: "endian \<Rightarrow> nat \<Rightarrow> u32 \<Rightarrow> u64 list \<Rightarrow> fault + u64 list" where
  "mark_used h i nr_used bfree =
     (if nr_used \<noteq> 0 then
        (case fill_line 0 0xffffffffffffffff nr_used of
           (line, nr_used') \<Rightarrow>
             if i < length bfree
             then mark_used h (Suc i) nr_used' (bfree[i := htole64 h line])
             else Inl BufferOverrun)
      else Inr bfree)"
  by pat_completeness auto

termination mark_used
  by (relation "measure (\<lambda>(h, i, nr_used, bfree). length bfree - i)") auto

declare mark_used.simps [simp del]

definition write_bfree_blocks ::
  "endian \<Rightarrow> proc \<Rightarrow> simplefs_sb_info \<Rightarrow> fault + (int \<times> proc)" where
  "write_bfree_blocks h p sb =
     (let nr_used = le32toh h (nr_istore_blocks sb) + le32toh h (nr_ifree_blocks sb)
                      + le32toh h (nr_bfree_blocks sb) + 2 in
      case malloc p of
        (False, p0) \<Rightarrow> Inr (- 1, p0)
      | (True, p0) \<Rightarrow>
          (case mark_used h 0 nr_used (replicate (SIMPLEFS_BLOCK_SIZE div 8) (- 1)) of
             Inl f \<Rightarrow> Inl f
           | Inr bfree \<Rightarrow>
               (case write_fd p0 (u64s_bytes h bfree) of
                  (False, p1) \<Rightarrow> Inr (- 1, p1)
                | (True, p1) \<Rightarrow>
                    Inr (write_loop 1 (le32toh h (nr_bfree_blocks sb))
                           (u64s_bytes h (replicate (SIMPLEFS_BLOCK_SIZE div 8) (- 1))) p1))))"

definition write_data_blocks :: "proc \<Rightarrow> simplefs_sb_info \<Rightarrow> int \<times> proc" where
  "write_data_blocks p sb = (0, p)"

subsection \<open>main\<close>

text \<open>What \<open>open\<close>, \<open>fstat\<close> and the \<open>BLKGETSIZE64\<close> ioctl report about the target.\<close>

record target =
  open_ok :: bool
  fstat_ok :: bool
  st_size :: int
  is_blk :: bool
  blk_size :: "int option"

text \<open>\<open>stat_buf.st_size\<close> when the size check reads it: a block device's size comes from the ioctl.\<close>

definition device_size :: "target \<Rightarrow> int" where
  "device_size tg =
     (case blk_size tg of
        Some sz \<Rightarrow> if is_blk tg then sz else st_size tg
      | None \<Rightarrow> st_size tg)"

definition main ::
  "endian \<Rightarrow> u32 \<Rightarrow> u32 \<Rightarrow> nat \<Rightarrow> target \<Rightarrow> proc \<Rightarrow> fault + (int \<times> proc)" where
  "main h ipb mg argc tg p =
     (if argc \<noteq> 2 then Inr (EXIT_FAILURE, fprintf_stderr p Usage)
      else if \<not> open_ok tg then Inr (EXIT_FAILURE, fprintf_stderr p Perror_open)
      else if \<not> fstat_ok tg then Inr (EXIT_FAILURE, fprintf_stderr p Perror_fstat)
      else if is_blk tg \<and> blk_size tg = None
           then Inr (EXIT_FAILURE, fprintf_stderr p Perror_BLKGETSIZE64)
      else
        let size = device_size tg;
            min_size = 100 * int SIMPLEFS_BLOCK_SIZE in
        if size \<le> min_size
        then Inr (EXIT_FAILURE, fprintf_stderr p (NotLargeEnough size min_size))
        else
          (case write_superblock h ipb mg p size of
             (None, p1) \<Rightarrow> Inr (EXIT_FAILURE, fprintf_stderr p1 Perror_write_superblock)
           | (Some sb, p1) \<Rightarrow>
          (case write_inode_store h p1 sb of (ret, p2) \<Rightarrow>
             if ret \<noteq> 0 then Inr (EXIT_FAILURE, fprintf_stderr p2 Perror_write_inode_store)
             else
          (case write_ifree_blocks h p2 sb of (ret, p3) \<Rightarrow>
             if ret \<noteq> 0 then Inr (EXIT_FAILURE, fprintf_stderr p3 Perror_write_ifree_blocks)
             else
          (case write_bfree_blocks h p3 sb of
             Inl f \<Rightarrow> Inl f
           | Inr (ret, p4) \<Rightarrow>
             if ret \<noteq> 0 then Inr (EXIT_FAILURE, fprintf_stderr p4 Perror_write_bfree_blocks)
             else
          (case write_data_blocks p4 sb of (ret, p5) \<Rightarrow>
             if ret \<noteq> 0 then Inr (EXIT_FAILURE, fprintf_stderr p5 Perror_write_data_blocks)
             else Inr (ret, p5)))))))"


section \<open>The kernel module (super.c)\<close>

subsection \<open>Block device, buffers and allocation\<close>

text \<open>
  The module sees the device through the buffer cache: \<open>sb_bread\<close> gives the current
  contents of a block or fails, and a store into \<open>bh->b_data\<close> followed by
  \<open>mark_buffer_dirty\<close> is what a later \<open>sb_bread\<close> of that block returns, whether or not
  \<open>sync_dirty_buffer\<close> ran. The log records the block reads, the allocations and the
  write-outs; \<open>kmem_left\<close> is the number of \<open>kzalloc\<close> calls that still succeed.
\<close>

datatype kevent = Bread nat | Kzalloc nat | Dirty nat | SyncBuffer nat

record kernel =
  blocks :: "nat \<rightharpoonup> u8 list"
  klog :: "kevent list"
  kmem_left :: nat

definition EIO :: int where "EIO = 5"
definition ENOMEM :: int where "ENOMEM = 12"
definition EINVAL :: int where "EINVAL = 22"

definition sb_bread :: "kernel \<Rightarrow> nat \<Rightarrow> u8 list option \<times> kernel" where
  "sb_bread k n = (blocks k n, k\<lparr>klog := klog k @ [Bread n]\<rparr>)"

text \<open>\<open>mark_buffer_dirty(bh); if (wait) sync_dirty_buffer(bh);\<close> for the changed buffer of block \<open>n\<close>.\<close>

definition put_buffer :: "kernel \<Rightarrow> nat \<Rightarrow> u8 list \<Rightarrow> bool \<Rightarrow> kernel" where
  "put_buffer k n b wait =
     k\<lparr>blocks := (blocks k)(n \<mapsto> b),
       klog := klog k @ Dirty n # (if wait then [SyncBuffer n] else [])\<rparr>"

definition kzalloc :: "kernel \<Rightarrow> nat \<Rightarrow> u8 list option \<times> kernel" where
  "kzalloc k sz =
     (if kmem_left k = 0 then (None, k\<lparr>klog := klog k @ [Kzalloc sz]\<rparr>)
      else (Some (replicate sz 0),
            k\<lparr>klog := klog k @ [Kzalloc sz], kmem_left := kmem_left k - 1\<rparr>))"

text \<open>\<open>memcpy(dst + off, src, length src)\<close>; \<open>None\<close> when it would leave the destination.\<close>

definition memcpy_at :: "u8 list \<Rightarrow> nat \<Rightarrow> u8 list \<Rightarrow> u8 list option" where
  "memcpy_at dst off src =
     (if off + length src \<le> length dst
      then Some (take off dst @ src @ drop (off + length src) dst)
      else None)"

text \<open>
  An \<open>int\<close> block index passed to \<open>sb_bread\<close>, whose parameter is a 64-bit \<open>sector_t\<close>:
  a negative index is sign-extended.
\<close>

definition blkno :: "u32 \<Rightarrow> nat" where
  "blkno idx = unat (scast idx :: u64)"

text \<open>The in-memory superblock: the eight counters and the two bitmaps.\<close>

record simplefs_sb_mem = simplefs_sb_info +
  ifree_bitmap :: "u8 list"
  bfree_bitmap :: "u8 list"

subsection \<open>simplefs_fill_super\<close>

text \<open>
  \<open>csb = (struct simplefs_sb_info *) bh->b_data\<close>: the k-th field is read from bytes
  \<open>4k .. 4k+3\<close> of the block in the host's own byte order; no \<open>le32toh\<close> is applied.
\<close>

definition csb_field :: "endian \<Rightarrow> u8 list \<Rightarrow> nat \<Rightarrow> u32" where
  "csb_field h b k = mem_word h (take 4 (drop (4 * k) b))"

definition csb_view :: "endian \<Rightarrow> u8 list \<Rightarrow> simplefs_sb_info" where
  "csb_view h b =
     \<lparr>magic = csb_field h b 0, nr_blocks = csb_field h b 1, nr_inodes = csb_field h b 2,
      nr_istore_blocks = csb_field h b 3, nr_ifree_blocks = csb_field h b 4,
      nr_bfree_blocks = csb_field h b 5, nr_free_inodes = csb_field h b 6,
      nr_free_blocks = csb_field h b 7\<rparr>"

text \<open>
  \<open>for (i = 0; i < n; i++) { int idx = base + i + 1; bh = sb_bread(sb, idx); ...
  memcpy(bitmap + i * SIMPLEFS_BLOCK_SIZE, bh->b_data, SIMPLEFS_BLOCK_SIZE); }\<close>
  with \<open>base\<close> the sum of the counts of the regions before the bitmap. \<open>i\<close> is compared
  with the unsigned count. The result is \<open>None\<close> when a block cannot be read.
\<close>

function load_bitmap ::
  "u32 \<Rightarrow> u32 \<Rightarrow> u32 \<Rightarrow> u8 list \<Rightarrow> kernel \<Rightarrow> fault + (u8 list option \<times> kernel)" where
  "load_bitmap base i n bitmap k =
     (if i < n then
        (let idx = base + i + 1 in
         case sb_bread k (blkno idx) of
           (None, k') \<Rightarrow> Inr (None, k')
         | (Some b_data, k') \<Rightarrow>
             (case memcpy_at bitmap (unat i * SIMPLEFS_BLOCK_SIZE)
                     (take SIMPLEFS_BLOCK_SIZE b_data) of
                None \<Rightarrow> Inl BufferOverrun
              | Some bitmap' \<Rightarrow> load_bitmap base (i + 1) n bitmap' k'))
      else Inr (Some bitmap, k))"
  by pat_completeness auto

termination load_bitmap
  by (relation "measure (\<lambda>(base, i, n, bitmap, k). unat n - unat i)")
     (auto simp: unat_succ_below word_less_nat_alt)

declare load_bitmap.simps [simp del]

text \<open>
  What \<open>simplefs_iget(sb, 0)\<close> and \<open>d_make_root\<close> do is outside super.c; their outcome
  is given: the error of \<open>simplefs_iget\<close>, if any, and whether \<open>d_make_root\<close> returns a
  dentry.
\<close>

record mount_env =
  iget_error :: "int option"
  d_make_root_ok :: bool

text \<open>
  The kernel's \<open>struct simplefs_sb_info\<close> is the eight counters and the two bitmap
  pointers: 48 bytes on a 64-bit host.
\<close>

definition sizeof_sb_info :: nat where
  "sizeof_sb_info = 48"

text \<open>
  The result is the return value, \<open>sb->s_fs_info\<close> as far as it still points to live
  memory (\<open>None\<close> when nothing was allocated or everything was freed again), and the
  kernel state.
\<close>

definition simplefs_fill_super ::
  "endian \<Rightarrow> u32 \<Rightarrow> mount_env \<Rightarrow> kernel \<Rightarrow> fault + (int \<times> simplefs_sb_mem option \<times> kernel)" where
  "simplefs_fill_super h mg env k =
     (case sb_bread k SIMPLEFS_SB_BLOCK_NR of
        (None, k0) \<Rightarrow> Inr (- EIO, None, k0)
      | (Some b_data, k0) \<Rightarrow>
          let csb = csb_view h b_data in
          if magic csb \<noteq> mg then Inr (- EINVAL, None, k0)
          else
            (case kzalloc k0 sizeof_sb_info of
               (None, k1) \<Rightarrow> Inr (- ENOMEM, None, k1)
             | (Some _, k1) \<Rightarrow>
            (case kzalloc k1 (unat (nr_ifree_blocks csb * of_nat SIMPLEFS_BLOCK_SIZE)) of
               (None, k2) \<Rightarrow> Inr (- ENOMEM, None, k2)
             | (Some ifree0, k2) \<Rightarrow>
            (case load_bitmap (nr_istore_blocks csb) 0 (nr_ifree_blocks csb) ifree0 k2 of
               Inl f \<Rightarrow> Inl f
             | Inr (None, k3) \<Rightarrow> Inr (- EIO, None, k3)
             | Inr (Some ifree, k3) \<Rightarrow>
            (case kzalloc k3 (unat (nr_bfree_blocks csb * of_nat SIMPLEFS_BLOCK_SIZE)) of
               (None, k4) \<Rightarrow> Inr (- ENOMEM, None, k4)
             | (Some bfree0, k4) \<Rightarrow>
            (case load_bitmap (nr_istore_blocks csb + nr_ifree_blocks csb) 0
                    (nr_bfree_blocks csb) bfree0 k4 of
               Inl f \<Rightarrow> Inl f
             | Inr (None, k5) \<Rightarrow> Inr (- EIO, None, k5)
             | Inr (Some bfree, k5) \<Rightarrow>
                 let sbi = \<lparr>magic = 0, nr_blocks = nr_blocks csb, nr_inodes = nr_inodes csb,
                            nr_istore_blocks = nr_istore_blocks csb,
                            nr_ifree_blocks = nr_ifree_blocks csb,
                            nr_bfree_blocks = nr_bfree_blocks csb,
                            nr_free_inodes = nr_free_inodes csb,
                            nr_free_blocks = nr_free_blocks csb,
                            ifree_bitmap = ifree, bfree_bitmap = bfree\<rparr> in
                 (case iget_error env of
                    Some e \<Rightarrow> Inr (e, None, k5)
                  | None \<Rightarrow>
                      if \<not> d_make_root_ok env then Inr (- ENOMEM, None, k5)
                      else Inr (0, Some sbi, k5))))))))"

subsection \<open>simplefs_sync_fs\<close>

text \<open>
  \<open>for (i = 0; i < n; i++) { int idx = base + i + 1; bh = sb_bread(sb, idx); ...
  memcpy(bh->b_data, bitmap + i * SIMPLEFS_BLOCK_SIZE, SIMPLEFS_BLOCK_SIZE); ... }\<close>.
  The flag is false when a block cannot be read. Reading the bitmap beyond its end is
  the fault.
\<close>

function flush_bitmap ::
  "u32 \<Rightarrow> u32 \<Rightarrow> u32 \<Rightarrow> u8 list \<Rightarrow> bool \<Rightarrow> kernel \<Rightarrow> fault + (bool \<times> kernel)" where
  "flush_bitmap base i n bitmap wait k =
     (if i < n then
        (let idx = base + i + 1 in
         case sb_bread k (blkno idx) of
           (None, k') \<Rightarrow> Inr (False, k')
         | (Some b_data, k') \<Rightarrow>
             if (unat i + 1) * SIMPLEFS_BLOCK_SIZE \<le> length bitmap
             then flush_bitmap base (i + 1) n bitmap wait
                    (put_buffer k' (blkno idx)
                       (take SIMPLEFS_BLOCK_SIZE (drop (unat i * SIMPLEFS_BLOCK_SIZE) bitmap)) wait)
             else Inl BufferOverrun)
      else Inr (True, k))"
  by pat_completeness auto

termination flush_bitmap
  by (relation "measure (\<lambda>(base, i, n, bitmap, wait, k). unat n - unat i)")
     (auto simp: unat_succ_below word_less_nat_alt)

declare flush_bitmap.simps [simp del]

text \<open>
  The seven counters are stored into the buffer of block 0 as the host keeps them; the
  magic number (bytes 0 to 3) and the bytes after the counters stay.
\<close>

definition simplefs_sync_fs ::
  "endian \<Rightarrow> kernel \<Rightarrow> simplefs_sb_mem \<Rightarrow> bool \<Rightarrow> fault + (int \<times> kernel)" where
  "simplefs_sync_fs h k sbi wait =
     (case sb_bread k 0 of
        (None, k0) \<Rightarrow> Inr (- EIO, k0)
      | (Some b_data, k0) \<Rightarrow>
          let disk_sb = take 4 b_data
                @ concat (map (mem_bytes h 4)
                    [nr_blocks sbi, nr_inodes sbi, nr_istore_blocks sbi, nr_ifree_blocks sbi,
                     nr_bfree_blocks sbi, nr_free_inodes sbi, nr_free_blocks sbi])
                @ drop 32 b_data;
              k1 = put_buffer k0 0 disk_sb wait in
          (case flush_bitmap (nr_istore_blocks sbi) 0 (nr_ifree_blocks sbi)
                  (ifree_bitmap sbi) wait k1 of
             Inl f \<Rightarrow> Inl f
           | Inr (False, k2) \<Rightarrow> Inr (- EIO, k2)
           | Inr (True, k2) \<Rightarrow>
          (case flush_bitmap (nr_istore_blocks sbi + nr_ifree_blocks sbi) 0 (nr_bfree_blocks sbi)
                  (bfree_bitmap sbi) wait k2 of
             Inl f \<Rightarrow> Inl f
           | Inr (False, k3) \<Rightarrow> Inr (- EIO, k3)
           | Inr (True, k3) \<Rightarrow> Inr (0, k3))))"

subsection \<open>simplefs_write_inode\<close>

text \<open>
  The VFS inode with the fields the function reads, and the two fields of the enclosing
  \<open>struct simplefs_inode_info\<close>. \<open>i_ino\<close> is an \<open>unsigned long\<close>; the function keeps it
  in a \<open>uint32_t\<close>.
\<close>

record inode =
  i_ino :: u64
  i_mode :: u32
  i_uid :: u32
  i_gid :: u32
  i_size :: u64
  i_ctime :: u64
  i_atime :: u64
  i_mtime :: u64
  i_blocks :: u64
  i_nlink :: u32
  ei_block :: u32
  i_data :: "u8 list"

text \<open>\<open>strncpy(dst, src, n)\<close> with \<open>n\<close> the size of \<open>src\<close>: up to the first NUL, then NULs.\<close>

definition strncpy :: "u8 list \<Rightarrow> u8 list" where
  "strncpy src = (let s = takeWhile (\<lambda>c. c \<noteq> 0) src in s @ replicate (length src - length s) 0)"

text \<open>
  The on-disk record of \<open>struct simplefs_inode\<close> (layout as for the root inode above),
  stored field by field in the host's byte order.
\<close>

definition disk_inode_bytes :: "endian \<Rightarrow> inode \<Rightarrow> u8 list" where
  "disk_inode_bytes h ino =
     concat (map (mem_bytes h 4)
       [i_mode ino, i_uid ino, i_gid ino, ucast (i_size ino),
        ucast (i_ctime ino), ucast (i_atime ino), ucast (i_mtime ino),
        ucast (i_blocks ino), i_nlink ino, ei_block ino])
     @ strncpy (i_data ino)"

definition simplefs_write_inode ::
  "endian \<Rightarrow> u32 \<Rightarrow> kernel \<Rightarrow> 'a simplefs_sb_info_scheme \<Rightarrow> inode \<Rightarrow> fault + (int \<times> kernel)" where
  "simplefs_write_inode h ipb k sbi inode =
     (let ino = (ucast (i_ino inode) :: u32);
          inode_block = (ino div ipb) + 1;
          inode_shift = ino mod ipb in
      if ino \<ge> nr_inodes sbi then Inr (0, k)
      else
        (case sb_bread k (unat inode_block) of
           (None, k0) \<Rightarrow> Inr (- EIO, k0)
         | (Some b_data, k0) \<Rightarrow>
             let rec = disk_inode_bytes h inode in
             (case memcpy_at b_data (unat inode_shift * length rec) rec of
                None \<Rightarrow> Inl BufferOverrun
              | Some b_data' \<Rightarrow> Inr (0, put_buffer k0 (unat inode_block) b_data' True))))"


section \<open>The bitmap region\<close>

text \<open>
  The bitmap operations are declared in a header that is not among the sources.

  Modelled from the spec: a bitmap region is a byte buffer seen as one flat bit vector
  with a logical count; bit value 1 is free, 0 is in use. \<open>test\<close> fails for an index at
  or beyond the logical count; \<open>set_used\<close> and \<open>set_free\<close> change the one bit;
  \<open>find_first_free\<close> scans linearly and returns the lowest free index below the logical
  count, or signals that there is none. Bit \<open>i\<close> of the buffer is bit \<open>i mod 8\<close> of byte
  \<open>i div 8\<close>, the position at which the format tool's little-endian 64-bit words put
  the bit with mask \<open>1 << (i mod 64)\<close> of word \<open>i div 64\<close>.
\<close>

definition bit_at :: "u8 list \<Rightarrow> nat \<Rightarrow> bool" where
  "bit_at buf i = bit (buf ! (i div 8)) (i mod 8)"

record bitmap_region =
  bm_buf :: "u8 list"
  logical_count :: nat

datatype bitmap_error = OutOfRange | AllocationExhausted

definition test :: "bitmap_region \<Rightarrow> nat \<Rightarrow> bitmap_error + bool" where
  "test r i = (if i \<ge> logical_count r then Inl OutOfRange else Inr (bit_at (bm_buf r) i))"

definition set_used :: "bitmap_region \<Rightarrow> nat \<Rightarrow> bitmap_region" where
  "set_used r i = r\<lparr>bm_buf := (bm_buf r)[i div 8 := (bm_buf r ! (i div 8)) AND NOT (push_bit (i mod 8) 1)]\<rparr>"

definition set_free :: "bitmap_region \<Rightarrow> nat \<Rightarrow> bitmap_region" where
  "set_free r i = r\<lparr>bm_buf := (bm_buf r)[i div 8 := (bm_buf r ! (i div 8)) OR push_bit (i mod 8) 1]\<rparr>"

definition find_first_free :: "bitmap_region \<Rightarrow> bitmap_error + nat" where
  "find_first_free r =
     (case find (\<lambda>i. bit_at (bm_buf r) i) [0..<logical_count r] of
        None \<Rightarrow> Inl AllocationExhausted
      | Some i \<Rightarrow> Inr i)"


section \<open>Observations used in the statements\<close>

text \<open>
  The bytes that a writer appended to the image, and the number \<open>N\<close> of blocks that
  \<open>write_bfree_blocks\<close> wants marked: the superblock, the inode store, the two bitmaps
  and the root directory's data block (\<open>nr_used\<close>, without the 32-bit wrap-around).
\<close>

definition appended :: "proc \<Rightarrow> proc \<Rightarrow> u8 list" where
  "appended p p' = concat (drop (length (image p)) (image p'))"

definition nr_used_bits :: "endian \<Rightarrow> simplefs_sb_info \<Rightarrow> nat" where
  "nr_used_bits h sb =
     unat (le32toh h (nr_istore_blocks sb)) + unat (le32toh h (nr_ifree_blocks sb))
       + unat (le32toh h (nr_bfree_blocks sb)) + 2"

text \<open>
  A bitmap block whose first \<open>N\<close> bits are 0 and whose other bits are 1, and a block of
  ones.
\<close>

definition used_block :: "nat \<Rightarrow> u8 list" where
  "used_block N = concat (map (\<lambda>j. le_bytes 8 (NOT (mask (N - 64 * j)) :: u64)) [0..<SIMPLEFS_BLOCK_SIZE div 8])"

definition free_block :: "u8 list" where
  "free_block = replicate SIMPLEFS_BLOCK_SIZE (- 1)"

text \<open>
  The in-memory superblock after an allocator marked inode \<open>i\<close> and block \<open>j\<close> in use,
  with \<open>set_used\<close> on the two bitmap regions.
\<close>

definition with_used :: "simplefs_sb_mem \<Rightarrow> nat \<Rightarrow> nat \<Rightarrow> simplefs_sb_mem" where
  "with_used sbi i j =
     sbi\<lparr>ifree_bitmap :=
           bm_buf (set_used \<lparr>bm_buf = ifree_bitmap sbi, logical_count = unat (nr_inodes sbi)\<rparr> i),
         bfree_bitmap :=
           bm_buf (set_used \<lparr>bm_buf = bfree_bitmap sbi, logical_count = unat (nr_blocks sbi)\<rparr> j)\<rparr>"


section \<open>Closed forms of the environment and the write loop\<close>

lemma malloc_closed:
  "malloc p = (heap_left p \<noteq> 0,
               if heap_left p = 0 then p else p\<lparr>heap_left := heap_left p - 1\<rparr>)"
  by (simp add: malloc_def)

lemma write_fd_closed:
  "write_fd p b = (wr_left p \<noteq> 0,
                   if wr_left p = 0 then p
                   else p\<lparr>image := image p @ [b], wr_left := wr_left p - 1\<rparr>)"
  by (simp add: write_fd_def)

text \<open>
  The loop asks for \<open>n - i\<close> writes and gets as many as the environment grants; it
  returns 0 exactly when it got them all.
\<close>

lemma write_loop_closed:
  "write_loop i n b p =
     (let c = unat n - unat i; m = min c (wr_left p)
      in (if c \<le> wr_left p then 0 else - 1,
          p\<lparr>image := image p @ replicate m b, wr_left := wr_left p - m\<rparr>))"
proof (induction i n b p rule: write_loop.induct)
  case (1 i n b p)
  show ?case
  proof (cases "i < n")
    case False
    then have "unat n - unat i = 0" by (simp add: word_less_nat_alt)
    with False show ?thesis by (simp add: write_loop.simps [of i n])
  next
    case True
    then have c: "unat n - unat i = Suc (unat n - unat (i + 1))"
      by (simp add: unat_succ_below word_less_nat_alt)
    show ?thesis
    proof (cases "wr_left p = 0")
      case z: True
      with True c show ?thesis
        by (simp add: write_loop.simps [of i n] write_fd_def)
    next
      case nz: False
      let ?q = "p\<lparr>image := image p @ [b], wr_left := wr_left p - 1\<rparr>"
      have w: "write_fd p b = (True, ?q)"
        using nz by (simp add: write_fd_def)
      have r: "b # replicate (j - Suc 0) b = replicate j b" if "0 < j" for j
        using that by (cases j) simp_all
      have "write_loop i n b p = write_loop (i + 1) n b ?q"
        using True w by (simp add: write_loop.simps [of i n])
      also note "1.IH" [OF True w [symmetric] refl]
      finally show ?thesis using nz c r
        by (auto simp: Let_def min_def)
    qed
  qed
qed

lemma stderr_write_loop: "stderr (snd (write_loop i n b p)) = stderr p"
  by (simp add: write_loop_closed Let_def)

lemma stderr_write_superblock: "stderr (snd (write_superblock h ipb mg p sz)) = stderr p"
  by (simp add: write_superblock_def malloc_closed write_fd_closed Let_def)

lemma stderr_write_inode_store: "stderr (snd (write_inode_store h p sb)) = stderr p"
  by (simp add: write_inode_store_def malloc_closed write_fd_closed Let_def stderr_write_loop)

lemma stderr_write_ifree_blocks: "stderr (snd (write_ifree_blocks h p sb)) = stderr p"
  by (simp add: write_ifree_blocks_def malloc_closed write_fd_closed Let_def stderr_write_loop)

lemma stderr_write_bfree_blocks:
  "write_bfree_blocks h p sb = Inr (r, p') \<Longrightarrow> stderr p' = stderr p"
  by (auto simp: write_bfree_blocks_def malloc_closed write_fd_closed Let_def write_loop_closed
           split: sum.splits if_splits)


section \<open>The size check of main\<close>

lemma main_rejects:
  assumes "argc = 2" "open_ok tg" "fstat_ok tg" "is_blk tg \<longrightarrow> blk_size tg \<noteq> None"
    and "device_size tg \<le> 100 * 4096"
  shows "main h ipb mg argc tg p =
           Inr (EXIT_FAILURE,
                p\<lparr>stderr := stderr p @ [NotLargeEnough (device_size tg) (100 * 4096)]\<rparr>)"
  using assms
  by (auto simp: main_def SIMPLEFS_BLOCK_SIZE_def fprintf_stderr_def Let_def)

lemma main_passes:
  assumes "argc = 2" "open_ok tg" "fstat_ok tg" "is_blk tg \<longrightarrow> blk_size tg \<noteq> None"
    and "100 * 4096 < device_size tg" and "main h ipb mg argc tg p = Inr (r, p')"
  shows "\<exists>d. stderr p' = stderr p @ d \<and> (\<forall>a b. NotLargeEnough a b \<notin> set d)"
proof -
  let ?sz = "device_size tg"
  obtain sbo p1 where ws: "write_superblock h ipb mg p ?sz = (sbo, p1)"
    by (cases "write_superblock h ipb mg p ?sz")
  have e1: "stderr p1 = stderr p"
    using stderr_write_superblock [of h ipb mg p ?sz] ws by simp
  show ?thesis
  proof (cases sbo)
    case None
    with assms ws e1 show ?thesis
      by (auto simp: main_def SIMPLEFS_BLOCK_SIZE_def fprintf_stderr_def Let_def)
  next
    case (Some sb)
    obtain r2 p2 where w2: "write_inode_store h p1 sb = (r2, p2)"
      by (cases "write_inode_store h p1 sb")
    have e2: "stderr p2 = stderr p"
      using stderr_write_inode_store [of h p1 sb] w2 e1 by simp
    obtain r3 p3 where w3: "write_ifree_blocks h p2 sb = (r3, p3)"
      by (cases "write_ifree_blocks h p2 sb")
    have e3: "stderr p3 = stderr p"
      using stderr_write_ifree_blocks [of h p2 sb] w3 e2 by simp
    have m: "main h ipb mg argc tg p =
       (if r2 \<noteq> 0 then Inr (EXIT_FAILURE, fprintf_stderr p2 Perror_write_inode_store)
        else if r3 \<noteq> 0 then Inr (EXIT_FAILURE, fprintf_stderr p3 Perror_write_ifree_blocks)
        else (case write_bfree_blocks h p3 sb of
                Inl f \<Rightarrow> Inl f
              | Inr (ret, p4) \<Rightarrow>
                  if ret \<noteq> 0
                  then Inr (EXIT_FAILURE, fprintf_stderr p4 Perror_write_bfree_blocks)
                  else Inr (0, p4)))"
      using assms(1-5) ws Some w2 w3
      by (auto simp: main_def SIMPLEFS_BLOCK_SIZE_def Let_def write_data_blocks_def
               split: sum.splits)
    show ?thesis
    proof (cases "write_bfree_blocks h p3 sb")
      case (Inl f)
      with m assms(6) e2 e3 show ?thesis
        by (auto simp: fprintf_stderr_def split: if_splits)
    next
      case (Inr rp)
      obtain r4 p4 where rp: "rp = (r4, p4)" by (cases rp)
      have e4: "stderr p4 = stderr p"
        using stderr_write_bfree_blocks [of h p3 sb r4 p4] Inr rp e3 by simp
      from m assms(6) e2 e3 e4 Inr rp show ?thesis
        by (auto simp: fprintf_stderr_def split: if_splits)
    qed
  qed
qed

text \<open>
  C8. Once the argument count, \<open>open\<close>, \<open>fstat\<close> and (for a block device) the ioctl are
  passed, the tool leaves with \<open>EXIT_FAILURE\<close> and the "not large enough" diagnostic,
  with the image untouched and no \<open>write\<close> or \<open>malloc\<close> attempted, if and only if the
  size in bytes is at most 100 blocks; so it goes on to the format steps exactly for the
  sizes strictly greater than 100 blocks. A size of exactly 100 blocks is rejected, one
  of 101 blocks is not.
\<close>

theorem size_check_boundary:
  assumes "argc = 2" and "open_ok tg" and "fstat_ok tg"
    and "is_blk tg \<longrightarrow> blk_size tg \<noteq> None"
  shows "main h ipb mg argc tg p =
           Inr (EXIT_FAILURE,
                p\<lparr>stderr := stderr p @ [NotLargeEnough (device_size tg) (100 * 4096)]\<rparr>)
         \<longleftrightarrow> device_size tg \<le> 100 * int SIMPLEFS_BLOCK_SIZE"
proof
  assume rej: "main h ipb mg argc tg p =
           Inr (EXIT_FAILURE,
                p\<lparr>stderr := stderr p @ [NotLargeEnough (device_size tg) (100 * 4096)]\<rparr>)"
  show "device_size tg \<le> 100 * int SIMPLEFS_BLOCK_SIZE"
  proof (rule ccontr)
    assume "\<not> device_size tg \<le> 100 * int SIMPLEFS_BLOCK_SIZE"
    then have "100 * 4096 < device_size tg" by (simp add: SIMPLEFS_BLOCK_SIZE_def)
    from main_passes [OF assms this rej] show False by auto
  qed
next
  assume "device_size tg \<le> 100 * int SIMPLEFS_BLOCK_SIZE"
  then have "device_size tg \<le> 100 * 4096" by (simp add: SIMPLEFS_BLOCK_SIZE_def)
  from main_rejects [OF assms this] show "main h ipb mg argc tg p =
           Inr (EXIT_FAILURE,
                p\<lparr>stderr := stderr p @ [NotLargeEnough (device_size tg) (100 * 4096)]\<rparr>)" .
qed

theorem size_check_boundary_witness:
  "main LittleEndian 56 0xDEADCE11 2
     \<lparr>open_ok = True, fstat_ok = True, st_size = 100 * 4096, is_blk = False, blk_size = None\<rparr>
     \<lparr>image = [], wr_left = 6, heap_left = 4, stderr = []\<rparr>
   = Inr (EXIT_FAILURE,
          \<lparr>image = [], wr_left = 6, heap_left = 4,
           stderr = [NotLargeEnough (100 * 4096) (100 * 4096)]\<rparr>)
   \<and> main LittleEndian 56 0xDEADCE11 2
     \<lparr>open_ok = True, fstat_ok = True, st_size = 101 * 4096, is_blk = False, blk_size = None\<rparr>
     \<lparr>image = [], wr_left = 6, heap_left = 4, stderr = []\<rparr>
   \<noteq> Inr (EXIT_FAILURE,
          \<lparr>image = [], wr_left = 6, heap_left = 4,
           stderr = [NotLargeEnough (101 * 4096) (100 * 4096)]\<rparr>)"
  using size_check_boundary [of 2
      "\<lparr>open_ok = True, fstat_ok = True, st_size = 100 * 4096, is_blk = False, blk_size = None\<rparr>"
      LittleEndian 56 "0xDEADCE11" "\<lparr>image = [], wr_left = 6, heap_left = 4, stderr = []\<rparr>"]
    size_check_boundary [of 2
      "\<lparr>open_ok = True, fstat_ok = True, st_size = 101 * 4096, is_blk = False, blk_size = None\<rparr>"
      LittleEndian 56 "0xDEADCE11" "\<lparr>image = [], wr_left = 6, heap_left = 4, stderr = []\<rparr>"]
  by (simp add: device_size_def SIMPLEFS_BLOCK_SIZE_def)


section \<open>The geometry of write_superblock\<close>

text \<open>
  Whatever the size and the number of inodes per block, the local \<open>nr_data_blocks\<close> is
  what remains of \<open>nr_blocks\<close> after the inode store and the two bitmaps only: block 0,
  the superblock, is counted among the data blocks.
\<close>

lemma locals_sum:
  "l_nr_istore_blocks (superblock_locals ipb sz) + l_nr_ifree_blocks (superblock_locals ipb sz)
     + l_nr_bfree_blocks (superblock_locals ipb sz) + l_nr_data_blocks (superblock_locals ipb sz)
   = l_nr_blocks (superblock_locals ipb sz)"
  by (simp add: superblock_locals_def Let_def)

lemma locals_101:
  "superblock_locals 56 413696 =
     \<lparr>l_nr_blocks = 101, l_nr_inodes = 112, l_nr_istore_blocks = 2, l_nr_ifree_blocks = 1,
      l_nr_bfree_blocks = 1, l_nr_data_blocks = 97\<rparr>"
  by (simp add: superblock_locals_def SIMPLEFS_BLOCK_SIZE_def tdiv_def idiv_ceil_def Let_def)

text \<open>
  C1 (the code departs from it). For a device of 101 blocks and 56 inodes per block the
  locals are 101 blocks, 2 inode-store blocks, one block for each bitmap and 97 data
  blocks: one superblock, the three regions and the data blocks add up to 102, not to
  the 101 blocks of the device.
\<close>

theorem data_blocks_101:
  "(let g = superblock_locals 56 (101 * 4096)
    in unat (l_nr_blocks g) = 101
       \<and> 1 + unat (l_nr_istore_blocks g) + unat (l_nr_ifree_blocks g)
           + unat (l_nr_bfree_blocks g) + unat (l_nr_data_blocks g) = 102)"
  by (simp add: locals_101)



section \<open>simplefs_write_inode\<close>

text \<open>
  C10. When the inode number kept in the function's \<open>uint32_t ino\<close> is at or beyond the
  mounted filesystem's inode count, the function returns 0 and the kernel state is the
  one it started from: no block was read, none was written.
\<close>

theorem write_inode_out_of_range:
  "nr_inodes sbi \<le> ucast (i_ino inode)
   \<Longrightarrow> simplefs_write_inode h ipb k sbi inode = Inr (0, k)"
  by (simp add: simplefs_write_inode_def Let_def)

theorem write_inode_out_of_range_witness:
  "simplefs_write_inode LittleEndian 56
     \<lparr>blocks = Map.empty, klog = [], kmem_left = 0\<rparr>
     \<lparr>magic = 0, nr_blocks = 101, nr_inodes = 112, nr_istore_blocks = 2,
      nr_ifree_blocks = 1, nr_bfree_blocks = 1, nr_free_inodes = 111, nr_free_blocks = 96\<rparr>
     \<lparr>i_ino = 112, i_mode = 0, i_uid = 0, i_gid = 0, i_size = 0, i_ctime = 0, i_atime = 0,
      i_mtime = 0, i_blocks = 0, i_nlink = 1, ei_block = 0, i_data = []\<rparr>
   = Inr (0, \<lparr>blocks = Map.empty, klog = [], kmem_left = 0\<rparr>)"
  using write_inode_out_of_range [of
     "\<lparr>magic = 0, nr_blocks = 101, nr_inodes = 112, nr_istore_blocks = 2,
      nr_ifree_blocks = 1, nr_bfree_blocks = 1, nr_free_inodes = 111, nr_free_blocks = 96\<rparr>"
     "\<lparr>i_ino = 112, i_mode = 0, i_uid = 0, i_gid = 0, i_size = 0, i_ctime = 0, i_atime = 0,
      i_mtime = 0, i_blocks = 0, i_nlink = 1, ei_block = 0, i_data = []\<rparr>"
     LittleEndian 56 "\<lparr>blocks = Map.empty, klog = [], kmem_left = 0\<rparr>"]
  by simp


section \<open>Byte order\<close>

lemma bit_le_word:
  "bit (le_word bs :: 'a::len word) n \<longleftrightarrow>
     n < LENGTH('a) \<and> n div 8 < length bs \<and> bit (bs ! (n div 8)) (n mod 8)"
proof (induction bs arbitrary: n)
  case Nil then show ?case by simp
next
  case (Cons b bs)
  show ?case
  proof (cases "n < 8")
    case True
    then show ?thesis by (auto simp: bit_simps dest: bit_imp_le_length)
  next
    case False
    then have "n div 8 = Suc ((n - 8) div 8)" "n mod 8 = (n - 8) mod 8"
      by (simp_all add: le_div_geq le_mod_geq)
    with False Cons.IH[of "n - 8"] show ?thesis
      by (auto simp: bit_simps dest: bit_imp_le_length)
  qed
qed

lemma length_le_bytes [simp]: "length (le_bytes n w) = n"
  by (simp add: le_bytes_def)

lemma nth_le_bytes: "k < n \<Longrightarrow> le_bytes n w ! k = ucast (drop_bit (8 * k) w)"
  by (simp add: le_bytes_def)

lemma bit_nth_le_bytes:
  "k < n \<Longrightarrow> bit (le_bytes n (w :: 'a::len word) ! k) j \<longleftrightarrow> j < 8 \<and> bit w (8 * k + j)"
  by (auto simp: nth_le_bytes bit_simps dest: bit_imp_le_length)

lemma le_word_le_bytes:
  "LENGTH('a) \<le> 8 * n \<Longrightarrow> le_word (le_bytes n (w :: 'a::len word)) = w"
proof (rule bit_word_eqI)
  fix j assume a: "LENGTH('a) \<le> 8 * n" "j < LENGTH('a)"
  then have "j div 8 < n" by arith
  then show "bit (le_word (le_bytes n w) :: 'a word) j = bit w j"
    using a by (simp add: bit_le_word bit_nth_le_bytes)
qed

lemma le_bytes_le_word:
  "length bs = n \<Longrightarrow> 8 * n \<le> LENGTH('a) \<Longrightarrow> le_bytes n (le_word bs :: 'a::len word) = bs"
proof (rule nth_equalityI)
  show "length bs = n \<Longrightarrow> length (le_bytes n (le_word bs :: 'a word)) = length bs" by simp
next
  fix k assume a: "length bs = n" "8 * n \<le> LENGTH('a)" "k < length (le_bytes n (le_word bs :: 'a word))"
  then have k: "k < n" by simp
  show "le_bytes n (le_word bs :: 'a word) ! k = bs ! k"
  proof (rule bit_word_eqI)
    fix j assume "j < LENGTH(8)"
    then have j: "j < 8" by simp
    then have "(8 * k + j) div 8 = k" "(8 * k + j) mod 8 = j" by simp_all
    moreover have "8 * k + j < LENGTH('a)" using k j a(2) by arith
    ultimately show "bit (le_bytes n (le_word bs :: 'a word) ! k) j = bit (bs ! k) j"
      using k j a(1) by (simp add: bit_nth_le_bytes bit_le_word)
  qed
qed

lemma mem_bytes_htole64: "mem_bytes h 8 (htole64 h w) = le_bytes 8 w"
  by (cases h) (simp_all add: mem_bytes_def htole64_def bswap64_def le_bytes_le_word)

lemma mem_bytes_htole32: "mem_bytes h 4 (htole32 h w) = le_bytes 4 w"
  by (cases h) (simp_all add: mem_bytes_def htole32_def bswap32_def le_bytes_le_word)

lemma le32toh_htole32: "le32toh h (htole32 h w) = w"
  by (cases h) (simp_all add: le32toh_def htole32_def bswap32_def le_bytes_le_word le_word_le_bytes)

lemma unat_ge2: "(n::u32) \<noteq> 0 \<Longrightarrow> n \<noteq> 1 \<Longrightarrow> 2 \<le> unat n"
proof -
  assume a: "n \<noteq> 0" "n \<noteq> 1"
  have "unat n \<noteq> 0" using a(1) by (simp add: unsigned_eq_0_iff)
  moreover have "unat n \<noteq> 1"
  proof
    assume "unat n = 1"
    then have "of_nat (unat n) = (1::u32)" by simp
    then show False using a(2) by simp
  qed
  ultimately show ?thesis by arith
qed

lemma clear_run_step:
  "b < 64 \<Longrightarrow> 2 \<le> k \<Longrightarrow>
   ((line::u64) AND NOT (push_bit b 1)) AND NOT (push_bit (Suc b) (mask (k - 1)))
     = line AND NOT (push_bit b (mask k))"
  apply (rule bit_word_eqI)
  apply (simp add: bit_simps del: push_bit_Suc)
  apply (auto simp: less_Suc_eq_le)
  done

lemma push_bit_64_mask: "push_bit 64 (mask k) = (0::u64)"
  by (rule bit_word_eqI) (simp add: bit_simps)

lemma fill_line_closed:
  "n \<noteq> 0 \<Longrightarrow> b \<le> 64 \<Longrightarrow>
   fill_line b line n =
     (line AND NOT (push_bit b (mask (unat n))), n - of_nat (min (unat n) (64 - b)))"
proof (induction b line n rule: fill_line.induct)
  case (1 b line n)
  show ?case
  proof (cases "b = 64")
    case True
    have "push_bit 64 (1::u64) = 0" by (simp add: push_bit_eq_mult)
    then show ?thesis by (subst fill_line.simps) (simp add: True push_bit_64_mask)
  next
    case False
    with "1.prems" have b: "b < 64" by simp
    then have nz: "push_bit b (1::u64) \<noteq> 0"
      by (simp add: push_bit_eq_mult)
    show ?thesis
    proof (cases "n = 1")
      case True
      with nz b show ?thesis by (subst fill_line.simps) (simp add: Let_def)
    next
      case n1: False
      with "1.prems" have un: "2 \<le> unat n" by (simp add: unat_ge2)
      have un1: "unat (n - 1) = unat n - 1"
        using "1.prems"(1) by (simp add: unat_minus_one)
      have n10: "n - 1 \<noteq> 0" using n1 by simp
      have "fill_line b line n = fill_line (Suc b) (line AND NOT (push_bit b 1)) (n - 1)"
        using nz n10 by (subst fill_line.simps) (simp add: Let_def)
      also have "\<dots> = ((line AND NOT (push_bit b 1)) AND NOT (push_bit (Suc b) (mask (unat (n - 1)))),
                       n - 1 - of_nat (min (unat (n - 1)) (64 - Suc b)))"
        using "1.IH"[OF refl nz refl refl n10 n10] b by simp
      also have "(line AND NOT (push_bit b 1)) AND NOT (push_bit (Suc b) (mask (unat (n - 1))))
                 = line AND NOT (push_bit b (mask (unat n)))"
        using clear_run_step [OF b un] un1 by simp
      also have "n - 1 - of_nat (min (unat (n - 1)) (64 - Suc b)) = n - of_nat (min (unat n) (64 - b))"
      proof -
        have "min (unat n) (64 - b) = Suc (min (unat (n - 1)) (64 - Suc b))"
          using un un1 b by arith
        then show ?thesis by simp
      qed
      finally show ?thesis .
    qed
  qed
qed


section \<open>The loops of write_bfree_blocks\<close>

lemma all_ones: "(0xffffffffffffffff :: u64) = - 1"
  by simp

lemma fill_line_start:
  "n \<noteq> 0 \<Longrightarrow> fill_line 0 0xffffffffffffffff n = (NOT (mask (unat n)), n - of_nat (min (unat n) 64))"
  by (subst all_ones) (simp add: fill_line_closed)

lemma unat_after_line: "unat (n - of_nat (min (unat n) 64) :: u32) = unat n - 64"
proof (cases "unat n \<le> 64")
  case True
  then have "min (unat n) 64 = unat n" by simp
  then show ?thesis using True by simp
next
  case False
  then have m: "min (unat n) 64 = 64" by simp
  have "(64::u32) \<le> n" using False by (simp add: word_le_nat_alt)
  then have "unat (n - 64) = unat n - unat (64::u32)" by (rule unat_sub)
  then show ?thesis by (simp add: m)
qed

lemma ceil64_step: "0 < u \<Longrightarrow> Suc ((u - 64 + 63) div 64) = (u + 63) div (64::nat)"
proof (cases "u \<le> 64")
  case True
  assume "0 < u"
  with True have "(u + 63) div 64 = 1" by (auto simp: div_eq_dividend_iff Suc_le_eq intro!: div_nat_eqI)
  moreover from True have "u - 64 = 0" by simp
  ultimately show ?thesis by simp
next
  case False
  then have "u + 63 = (u - 64 + 63) + 64" by simp
  then have "(u + 63) div 64 = Suc ((u - 64 + 63) div 64)"
    by (metis div_add_self2 zero_neq_numeral Suc_eq_plus1)
  then show ?thesis by simp
qed

lemma mark_used_overrun:
  "i \<le> length bfree \<Longrightarrow> length bfree < (unat n + 63) div 64 + i \<Longrightarrow>
   mark_used h i n bfree = Inl BufferOverrun"
proof (induction h i n bfree rule: mark_used.induct)
  case (1 h i n bfree)
  have nz: "n \<noteq> 0"
  proof
    assume "n = 0"
    then have "(unat n + 63) div 64 = 0" by simp
    with "1.prems" show False by simp
  qed
  then have pos: "0 < unat n" by (simp add: unat_gt_0)
  show ?case
  proof (cases "i < length bfree")
    case False
    with nz show ?thesis by (subst mark_used.simps) (simp add: fill_line_start)
  next
    case True
    let ?n' = "n - of_nat (min (unat n) 64)"
    let ?bf = "bfree[i := htole64 h (NOT (mask (unat n)))]"
    have step: "mark_used h i n bfree = mark_used h (Suc i) ?n' ?bf"
      using nz True by (subst mark_used.simps) (simp add: fill_line_start)
    have "length bfree < Suc ((unat n - 64 + 63) div 64) + i"
      using "1.prems"(2) ceil64_step [OF pos] by simp
    then have a: "length ?bf < (unat ?n' + 63) div 64 + Suc i"
      by (simp add: unat_after_line)
    have b: "Suc i \<le> length ?bf" using True by simp
    have "mark_used h (Suc i) ?n' ?bf = Inl BufferOverrun"
      by (rule "1.IH"[OF nz fill_line_start[OF nz, symmetric] True b a])
    with step show ?thesis by simp
  qed
qed

lemma mark_used_nth:
  "(unat n + 63) div 64 + i \<le> length bfree \<Longrightarrow>
   \<exists>ws. mark_used h i n bfree = Inr ws \<and> length ws = length bfree \<and>
        (\<forall>j < length bfree. ws ! j =
           (if i \<le> j \<and> 64 * (j - i) < unat n
            then htole64 h (NOT (mask (unat n - 64 * (j - i)))) else bfree ! j))"
proof (induction h i n bfree rule: mark_used.induct)
  case (1 h i n bfree)
  show ?case
  proof (cases "n = 0")
    case True
    then show ?thesis by (subst mark_used.simps) simp
  next
    case False
    then have pos: "0 < unat n" by (simp add: unat_gt_0)
    have "0 < (unat n + 63) div 64" using pos by (simp add: div_greater_zero_iff)
    with "1.prems" have i: "i < length bfree" by simp
    define n' where "n' = n - of_nat (min (unat n) 64)"
    define bf where "bf = bfree[i := htole64 h (NOT (mask (unat n)))]"
    have un': "unat n' = unat n - 64" by (simp add: n'_def unat_after_line)
    have fl: "(NOT (mask (unat n)), n') = fill_line 0 0xffffffffffffffff n"
      using fill_line_start [OF False] by (simp add: n'_def)
    have step: "mark_used h i n bfree = mark_used h (Suc i) n' bf"
      using False i fl [symmetric] by (subst mark_used.simps) (simp add: bf_def)
    have pre: "(unat n' + 63) div 64 + Suc i \<le> length bf"
      using "1.prems" ceil64_step [OF pos] by (simp add: un' bf_def)
    from "1.IH" [OF False fl i pre [unfolded bf_def]]
    obtain ws where ws: "mark_used h (Suc i) n' bf = Inr ws" "length ws = length bfree"
      and nth: "\<And>j. j < length bfree \<Longrightarrow> ws ! j =
           (if Suc i \<le> j \<and> 64 * (j - Suc i) < unat n'
            then htole64 h (NOT (mask (unat n' - 64 * (j - Suc i)))) else bf ! j)"
      by (auto simp: bf_def)
    have "ws ! j = (if i \<le> j \<and> 64 * (j - i) < unat n
            then htole64 h (NOT (mask (unat n - 64 * (j - i)))) else bfree ! j)"
      if j: "j < length bfree" for j
    proof -
      consider "j < i" | "j = i" | "Suc i \<le> j" by arith
      then show ?thesis
      proof cases
        case 1
        with nth [OF j] show ?thesis by (simp add: bf_def)
      next
        case 2
        with nth [OF j] i pos show ?thesis by (simp add: bf_def)
      next
        case 3
        then have e: "64 * (j - i) = 64 + 64 * (j - Suc i)" by arith
        have c: "(64 * (j - Suc i) < unat n') = (64 * (j - i) < unat n)"
          unfolding un' e by arith
        have d: "unat n' - 64 * (j - Suc i) = unat n - 64 * (j - i)"
          unfolding un' e by arith
        have bfj: "bf ! j = bfree ! j" using 3 by (simp add: bf_def)
        from 3 have ij: "i \<le> j" by simp
        show ?thesis using nth [OF j] 3 ij by (simp only: c d bfj if_True simp_thms)
      qed
    qed
    with ws step show ?thesis by auto
  qed
qed


section \<open>Bitmap blocks\<close>

lemma le_bytes_ones: "8 * n \<le> LENGTH('a) \<Longrightarrow> le_bytes n (- 1 :: 'a::len word) = replicate n (- 1)"
proof (rule nth_equalityI)
  show "length (le_bytes n (- 1 :: 'a word)) = length (replicate n (- 1 :: u8))" by simp
next
  fix k assume a: "8 * n \<le> LENGTH('a)" "k < length (le_bytes n (- 1 :: 'a word))"
  then have k: "k < n" by simp
  show "le_bytes n (- 1 :: 'a word) ! k = replicate n (- 1) ! k"
  proof (rule bit_word_eqI)
    fix j assume "j < LENGTH(8)"
    then have "j < 8" by simp
    moreover then have "8 * k + j < LENGTH('a)" using k a(1) by arith
    ultimately show "bit (le_bytes n (- 1 :: 'a word) ! k) j = bit (replicate n (- 1 :: u8) ! k) j"
      using k by (simp add: bit_nth_le_bytes)
  qed
qed

lemma htole64_ones: "htole64 h (- 1) = - 1"
proof (cases h)
  case LittleEndian then show ?thesis by (simp add: htole64_def)
next
  case BigEndian
  have "le_word (rev (le_bytes 8 (- 1 :: u64))) = (le_word (le_bytes 8 (- 1 :: u64)) :: u64)"
    by (simp add: le_bytes_ones)
  then show ?thesis using BigEndian by (simp add: htole64_def bswap64_def le_word_le_bytes)
qed

lemma mem_bytes_ones: "mem_bytes h 8 (- 1 :: u64) = replicate 8 (- 1)"
  by (cases h) (simp_all add: mem_bytes_def le_bytes_ones)

lemma concat_replicate_replicate: "concat (replicate m (replicate k x)) = replicate (m * k) x"
  by (induction m) (simp_all add: replicate_add)

lemma u64s_bytes_ones: "u64s_bytes h (replicate n (- 1)) = replicate (n * 8) (- 1)"
  by (simp add: u64s_bytes_def mem_bytes_ones concat_replicate_replicate)

lemma u64s_bytes_htole64: "u64s_bytes h (map (\<lambda>j. htole64 h (f j)) js) = concat (map (\<lambda>j. le_bytes 8 (f j)) js)"
  by (simp add: u64s_bytes_def mem_bytes_htole64 comp_def)

lemma mark_used_block:
  assumes "unat n \<le> 64 * len"
  shows "mark_used h 0 n (replicate len (- 1)) =
         Inr (map (\<lambda>j. htole64 h (NOT (mask (unat n - 64 * j)))) [0..<len])"
proof -
  have "(unat n + 63) div 64 + 0 \<le> length (replicate len (- 1 :: u64))"
    using assms by (simp add: div_le_mono [of "unat n + 63" "64 * len + 63" 64, simplified])
  from mark_used_nth [OF this, of h]
  obtain ws where ws: "mark_used h 0 n (replicate len (- 1)) = Inr ws" "length ws = len"
    and nth: "\<And>j. j < len \<Longrightarrow> ws ! j =
        (if 64 * j < unat n then htole64 h (NOT (mask (unat n - 64 * j))) else - 1)"
    by auto
  have "ws = map (\<lambda>j. htole64 h (NOT (mask (unat n - 64 * j)))) [0..<len]"
  proof (rule nth_equalityI)
    show "length ws = length (map (\<lambda>j. htole64 h (NOT (mask (unat n - 64 * j)))) [0..<len])"
      using ws(2) by simp
  next
    fix j assume "j < length ws"
    then have j: "j < len" using ws(2) by simp
    show "ws ! j = map (\<lambda>j. htole64 h (NOT (mask (unat n - 64 * j)))) [0..<len] ! j"
      using nth [OF j] j by (auto simp: htole64_ones)
  qed
  with ws(1) show ?thesis by simp
qed

lemma div8_less: "t < 8 * (n::nat) \<Longrightarrow> t div 8 < n"
  by (simp add: less_mult_imp_div_less mult.commute)

lemma div8_not_less: "\<not> t < 8 * (n::nat) \<Longrightarrow> \<not> t div 8 < n"
  by (metis div8_less div_mult_self1_is_m less_mult_imp_div_less mult.commute not_less zero_less_numeral div_le_mono)

lemma div8_diff: "((t::nat) - 8 * n) div 8 = t div 8 - n"
  by (simp add: div_mult2_eq diff_mult_distrib2 mult.commute)

lemma mod8_diff: "\<not> t < 8 * (n::nat) \<Longrightarrow> (t - 8 * n) mod 8 = t mod 8"
  by (metis le_add_diff_inverse mod_mult_self4 not_less)


lemma nth_concat_fixed:
  "\<forall>x \<in> set xss. length x = m \<Longrightarrow> k < m * length xss \<Longrightarrow>
   concat xss ! k = (xss ! (k div m)) ! (k mod m)"
proof (induction xss arbitrary: k)
  case Nil then show ?case by simp
next
  case (Cons x xss)
  then have m: "0 < m" by (cases m) auto
  show ?case
  proof (cases "k < m")
    case True
    with Cons.prems show ?thesis by (simp add: nth_append)
  next
    case False
    then have "k div m = Suc ((k - m) div m)" "k mod m = (k - m) mod m"
      using m by (simp_all add: le_div_geq le_mod_geq)
    moreover have "k - m < m * length xss" using Cons.prems False by simp
    ultimately show ?thesis using Cons.IH [of "k - m"] Cons.prems False
      by (simp add: nth_append)
  qed
qed

lemma length_concat_fixed:
  "\<forall>x \<in> set xss. length x = m \<Longrightarrow> length (concat xss) = m * length xss"
  by (induction xss) simp_all

lemma length_used_block: "length (used_block N) = SIMPLEFS_BLOCK_SIZE"
proof -
  have "length (used_block N) = 8 * length (map (\<lambda>j. le_bytes 8 (NOT (mask (N - 64 * j)) :: u64)) [0..<SIMPLEFS_BLOCK_SIZE div 8])"
    unfolding used_block_def by (rule length_concat_fixed) auto
  then show ?thesis by (simp add: SIMPLEFS_BLOCK_SIZE_def)
qed

lemma bit_at_used_block:
  assumes "t < 8 * SIMPLEFS_BLOCK_SIZE"
  shows "bit_at (used_block N) t \<longleftrightarrow> N \<le> t"
proof -
  define q where "q = t div 64"
  define r where "r = t mod 64"
  have t: "t = 64 * q + r" and r: "r < 64" by (simp_all add: q_def r_def)
  have q: "q < SIMPLEFS_BLOCK_SIZE div 8" using assms t by (simp add: SIMPLEFS_BLOCK_SIZE_def)
  define k where "k = t div 8"
  have kq: "k div 8 = q" by (simp add: k_def q_def div_mult2_eq)
  define s where "s = k mod 8"
  have s: "s < 8" by (simp add: s_def)
  have rs: "8 * s + t mod 8 = r"
  proof -
    have "t mod 64 = 8 * (t div 8 mod 8) + t mod 8"
      using mod_mult2_eq [of t 8 8] by simp
    then show ?thesis by (simp add: s_def k_def r_def)
  qed
  let ?g = "\<lambda>j. le_bytes 8 (NOT (mask (N - 64 * j)) :: u64)"
  have "k < 8 * length (map ?g [0..<SIMPLEFS_BLOCK_SIZE div 8])"
    using assms by (simp add: k_def SIMPLEFS_BLOCK_SIZE_def)
  then have "used_block N ! k = (map ?g [0..<SIMPLEFS_BLOCK_SIZE div 8] ! (k div 8)) ! (k mod 8)"
    unfolding used_block_def by (intro nth_concat_fixed) auto
  also have "\<dots> = ?g q ! s" using q by (simp add: kq s_def)
  finally have "bit_at (used_block N) t \<longleftrightarrow> bit (?g q ! s) (t mod 8)"
    by (simp add: bit_at_def k_def)
  also have "\<dots> \<longleftrightarrow> bit (NOT (mask (N - 64 * q)) :: u64) r"
    using s rs by (simp add: bit_nth_le_bytes)
  also have "\<dots> \<longleftrightarrow> \<not> r < N - 64 * q"
    using r by (simp add: bit_simps)
  also have "\<dots> \<longleftrightarrow> N \<le> t" unfolding t by arith
  finally show ?thesis .
qed

lemma bit_at_append:
  "bit_at (a @ b) t = (if t < 8 * length a then bit_at a t else bit_at b (t - 8 * length a))"
proof (cases "t < 8 * length a")
  case True
  then have "t div 8 < length a" by (rule div8_less)
  with True show ?thesis by (simp add: bit_at_def nth_append)
next
  case False
  then have "\<not> t div 8 < length a" by (rule div8_not_less)
  moreover have "(t - 8 * length a) div 8 = t div 8 - length a" by (rule div8_diff)
  moreover have "(t - 8 * length a) mod 8 = t mod 8" using False by (rule mod8_diff)
  ultimately show ?thesis using False by (simp add: bit_at_def nth_append)
qed

lemma bit_at_ones: "t < 8 * n \<Longrightarrow> bit_at (replicate n (- 1)) t"
proof -
  assume "t < 8 * n"
  then have "t div 8 < n" by (rule div8_less)
  then show ?thesis by (simp add: bit_at_def)
qed



section \<open>What the bitmap writers append\<close>

lemma ifree_first_block:
  "u64s_bytes h ((replicate (SIMPLEFS_BLOCK_SIZE div 8) (- 1))[0 := htole64 h 0xfffffffffffffffe]) = used_block 1"
proof -
  have e: "(0xfffffffffffffffe :: u64) = NOT (mask 1)" by simp
  have "(replicate (SIMPLEFS_BLOCK_SIZE div 8) (- 1))[0 := htole64 h (NOT (mask 1))]
        = map (\<lambda>j. htole64 h (NOT (mask (1 - 64 * j)))) [0..<SIMPLEFS_BLOCK_SIZE div 8]"
  proof (rule nth_equalityI)
    show "length ((replicate (SIMPLEFS_BLOCK_SIZE div 8) (- 1 :: u64))[0 := htole64 h (NOT (mask 1))])
        = length (map (\<lambda>j. htole64 h (NOT (mask (1 - 64 * j)))) [0..<SIMPLEFS_BLOCK_SIZE div 8])"
      by simp
  next
    fix j assume "j < length ((replicate (SIMPLEFS_BLOCK_SIZE div 8) (- 1 :: u64))[0 := htole64 h (NOT (mask 1))])"
    then have j: "j < SIMPLEFS_BLOCK_SIZE div 8" by simp
    show "(replicate (SIMPLEFS_BLOCK_SIZE div 8) (- 1))[0 := htole64 h (NOT (mask 1))] ! j
        = map (\<lambda>j. htole64 h (NOT (mask (1 - 64 * j)))) [0..<SIMPLEFS_BLOCK_SIZE div 8] ! j"
    proof (cases j)
      case 0 with j show ?thesis by simp
    next
      case (Suc k)
      then have "1 - 64 * j = 0" by simp
      with j Suc show ?thesis by (simp add: htole64_ones)
    qed
  qed
  then show ?thesis
    unfolding e used_block_def by (simp only: u64s_bytes_htole64)
qed

lemma ifree_other_block:
  "u64s_bytes h ((replicate (SIMPLEFS_BLOCK_SIZE div 8) (- 1))[0 := 0xffffffffffffffff]) = free_block"
proof -
  have "(replicate (SIMPLEFS_BLOCK_SIZE div 8) (- 1 :: u64))[0 := 0xffffffffffffffff]
        = replicate (SIMPLEFS_BLOCK_SIZE div 8) (- 1)"
    unfolding all_ones by (simp add: SIMPLEFS_BLOCK_SIZE_def list_update_same_conv)
  then show ?thesis
    by (simp only: u64s_bytes_ones free_block_def) (simp add: SIMPLEFS_BLOCK_SIZE_def)
qed

lemma write_ifree_blocks_closed:
  "write_ifree_blocks h p sb =
     (if heap_left p = 0 then (- 1, p)
      else if wr_left p = 0 then (- 1, p\<lparr>heap_left := heap_left p - 1\<rparr>)
      else (let c = unat (le32toh h (nr_ifree_blocks sb)) - 1; m = min c (wr_left p - 1)
            in (if c \<le> wr_left p - 1 then 0 else - 1,
                p\<lparr>image := image p @ used_block 1 # replicate m free_block,
                  wr_left := wr_left p - 1 - m, heap_left := heap_left p - 1\<rparr>)))"
  by (simp add: write_ifree_blocks_def malloc_closed write_fd_closed write_loop_closed Let_def
        ifree_first_block ifree_other_block)

lemma nr_used_unat:
  "nr_used_bits h sb < 2 ^ 32 \<Longrightarrow>
   unat (le32toh h (nr_istore_blocks sb) + le32toh h (nr_ifree_blocks sb)
          + le32toh h (nr_bfree_blocks sb) + 2) = nr_used_bits h sb"
  by (simp add: nr_used_bits_def unat_word_ariths)

lemma write_bfree_blocks_closed:
  assumes "nr_used_bits h sb \<le> 8 * SIMPLEFS_BLOCK_SIZE"
  shows "write_bfree_blocks h p sb =
     Inr (if heap_left p = 0 then (- 1, p)
      else if wr_left p = 0 then (- 1, p\<lparr>heap_left := heap_left p - 1\<rparr>)
      else (let c = unat (le32toh h (nr_bfree_blocks sb)) - 1; m = min c (wr_left p - 1)
            in (if c \<le> wr_left p - 1 then 0 else - 1,
                p\<lparr>image := image p @ used_block (nr_used_bits h sb) # replicate m free_block,
                  wr_left := wr_left p - 1 - m, heap_left := heap_left p - 1\<rparr>)))"
proof -
  let ?n = "le32toh h (nr_istore_blocks sb) + le32toh h (nr_ifree_blocks sb)
          + le32toh h (nr_bfree_blocks sb) + 2"
  have "nr_used_bits h sb < 2 ^ 32" using assms by (simp add: SIMPLEFS_BLOCK_SIZE_def)
  then have un: "unat ?n = nr_used_bits h sb" by (rule nr_used_unat)
  then have "unat ?n \<le> 64 * (SIMPLEFS_BLOCK_SIZE div 8)"
    using assms by (simp add: SIMPLEFS_BLOCK_SIZE_def)
  from mark_used_block [OF this, of h]
  have mu: "mark_used h 0 ?n (replicate (SIMPLEFS_BLOCK_SIZE div 8) (- 1)) =
      Inr (map (\<lambda>j. htole64 h (NOT (mask (nr_used_bits h sb - 64 * j)))) [0..<SIMPLEFS_BLOCK_SIZE div 8])"
    by (simp only: un)
  have ub: "u64s_bytes h (map (\<lambda>j. htole64 h (NOT (mask (nr_used_bits h sb - 64 * j)))) [0..<SIMPLEFS_BLOCK_SIZE div 8])
       = used_block (nr_used_bits h sb)"
    by (simp only: u64s_bytes_htole64 used_block_def)
  have fb: "u64s_bytes h (replicate (SIMPLEFS_BLOCK_SIZE div 8) (- 1)) = free_block"
    by (simp only: u64s_bytes_ones free_block_def) (simp add: SIMPLEFS_BLOCK_SIZE_def)
  show ?thesis
    unfolding write_bfree_blocks_def Let_def mu
    by (simp add: malloc_closed write_fd_closed write_loop_closed Let_def ub fb)
qed

lemma write_bfree_blocks_overrun:
  assumes "heap_left p \<noteq> 0" and "8 * SIMPLEFS_BLOCK_SIZE < nr_used_bits h sb" and "nr_used_bits h sb < 2 ^ 32"
  shows "write_bfree_blocks h p sb = Inl BufferOverrun"
proof -
  let ?n = "le32toh h (nr_istore_blocks sb) + le32toh h (nr_ifree_blocks sb)
          + le32toh h (nr_bfree_blocks sb) + 2"
  have un: "unat ?n = nr_used_bits h sb" using assms(3) by (rule nr_used_unat)
  have "512 < (nr_used_bits h sb + 63) div 64"
  proof -
    have "64 * 512 + 64 \<le> nr_used_bits h sb + 63" using assms(2) by (simp add: SIMPLEFS_BLOCK_SIZE_def)
    then have "(64 * 512 + 64) div 64 \<le> (nr_used_bits h sb + 63) div 64" by (rule div_le_mono)
    then show ?thesis by simp
  qed
  then have "length (replicate (SIMPLEFS_BLOCK_SIZE div 8) (- 1 :: u64)) < (unat ?n + 63) div 64 + 0"
    by (simp add: un SIMPLEFS_BLOCK_SIZE_def)
  then have mu: "mark_used h 0 ?n (replicate (SIMPLEFS_BLOCK_SIZE div 8) (- 1)) = Inl BufferOverrun"
    by (intro mark_used_overrun) simp_all
  show ?thesis
    unfolding write_bfree_blocks_def Let_def mu using assms(1)
    by (simp add: malloc_closed)
qed

lemma region_concat:
  "concat (used_block N # replicate m free_block) = used_block N @ replicate (m * SIMPLEFS_BLOCK_SIZE) (- 1)"
  by (simp add: free_block_def concat_replicate_replicate)

lemma region_length:
  "length (concat (used_block N # replicate m free_block)) = SIMPLEFS_BLOCK_SIZE * (m + 1)"
  by (simp only: region_concat length_append length_used_block length_replicate) simp

lemma region_bits:
  assumes "N \<le> 8 * SIMPLEFS_BLOCK_SIZE"
    and "t < 8 * length (concat (used_block N # replicate m free_block))"
  shows "bit_at (concat (used_block N # replicate m free_block)) t \<longleftrightarrow> N \<le> t"
proof (cases "t < 8 * SIMPLEFS_BLOCK_SIZE")
  case True
  then show ?thesis
    by (simp only: region_concat bit_at_append length_used_block if_True bit_at_used_block)
next
  case False
  have "t < 8 * (SIMPLEFS_BLOCK_SIZE * (m + 1))" using assms(2) by (simp only: region_length)
  then have "t - 8 * SIMPLEFS_BLOCK_SIZE < 8 * (m * SIMPLEFS_BLOCK_SIZE)"
    using False by (simp add: SIMPLEFS_BLOCK_SIZE_def)
  then have "bit_at (replicate (m * SIMPLEFS_BLOCK_SIZE) (- 1)) (t - 8 * SIMPLEFS_BLOCK_SIZE)"
    by (rule bit_at_ones)
  moreover have "N \<le> t" using False assms(1) by simp
  ultimately show ?thesis using False
    by (simp only: region_concat bit_at_append length_used_block if_False)
qed

lemma appended_eq: "image p' = image p @ xs \<Longrightarrow> appended p p' = concat xs"
  by (simp add: appended_def)

lemma ifree_appended:
  assumes "write_ifree_blocks h p sb = (0, p')"
  shows "appended p p' =
         concat (used_block 1 # replicate (unat (le32toh h (nr_ifree_blocks sb)) - 1) free_block)"
proof -
  have "image p' = image p @ used_block 1 # replicate (unat (le32toh h (nr_ifree_blocks sb)) - 1) free_block"
    using assms unfolding write_ifree_blocks_closed
    by (auto simp: Let_def min_def split: if_splits)
  then show ?thesis by (rule appended_eq)
qed

lemma bfree_appended:
  assumes "write_bfree_blocks h p sb = Inr (0, p')" and "nr_used_bits h sb \<le> 8 * SIMPLEFS_BLOCK_SIZE"
  shows "appended p p' =
         concat (used_block (nr_used_bits h sb)
                 # replicate (unat (le32toh h (nr_bfree_blocks sb)) - 1) free_block)"
proof -
  have "image p' = image p @ used_block (nr_used_bits h sb)
                 # replicate (unat (le32toh h (nr_bfree_blocks sb)) - 1) free_block"
    using assms(1) unfolding write_bfree_blocks_closed [OF assms(2)]
    by (auto simp: Let_def min_def split: if_splits)
  then show ?thesis by (rule appended_eq)
qed

lemma ifree_succeeds:
  assumes "heap_left p \<noteq> 0" and "1 \<le> wr_left p" and "unat (le32toh h (nr_ifree_blocks sb)) \<le> wr_left p"
  shows "fst (write_ifree_blocks h p sb) = 0"
  using assms unfolding write_ifree_blocks_closed by (auto simp: Let_def)

lemma bfree_succeeds:
  assumes "nr_used_bits h sb \<le> 8 * SIMPLEFS_BLOCK_SIZE"
    and "heap_left p \<noteq> 0" and "1 \<le> wr_left p" and "unat (le32toh h (nr_bfree_blocks sb)) \<le> wr_left p"
  shows "\<exists>p'. write_bfree_blocks h p sb = Inr (0, p')"
  using assms(2-) unfolding write_bfree_blocks_closed [OF assms(1)] by (auto simp: Let_def)

lemma find_first_free_prefix:
  assumes "N < cnt" and "\<And>t. t \<le> N \<Longrightarrow> bit_at b t \<longleftrightarrow> N \<le> t"
  shows "find_first_free \<lparr>bm_buf = b, logical_count = cnt\<rparr> = Inr N"
proof -
  have "find (bit_at b) [0..<cnt] = Some N"
    unfolding find_Some_iff
  proof (intro exI [of _ N] conjI allI impI)
    show "N < length [0..<cnt]" using assms(1) by simp
    show "bit_at b ([0..<cnt] ! N)" using assms by simp
    show "N = [0..<cnt] ! N" using assms(1) by simp
    fix j assume "j < N"
    then show "\<not> bit_at b ([0..<cnt] ! j)" using assms by simp
  qed
  then show ?thesis by (simp add: find_first_free_def)
qed

lemma find_first_free_bound:
  "find_first_free r = Inr i \<Longrightarrow> i < logical_count r"
  by (auto simp: find_first_free_def find_Some_iff split: option.splits)

lemma ifree_length:
  assumes "write_ifree_blocks h p sb = (0, p')"
  shows "length (appended p p') = SIMPLEFS_BLOCK_SIZE * max 1 (unat (le32toh h (nr_ifree_blocks sb)))"
proof -
  have "unat (le32toh h (nr_ifree_blocks sb)) - 1 + 1 = max 1 (unat (le32toh h (nr_ifree_blocks sb)))"
    by (simp add: max_def)
  then show ?thesis by (simp only: ifree_appended [OF assms] region_length)
qed

lemma ifree_bits:
  assumes "write_ifree_blocks h p sb = (0, p')" and "t < 8 * length (appended p p')"
  shows "bit_at (appended p p') t \<longleftrightarrow> 1 \<le> t"
  using assms(2) unfolding ifree_appended [OF assms(1)]
  by (intro region_bits) (simp_all add: SIMPLEFS_BLOCK_SIZE_def)

lemma bfree_length:
  assumes "write_bfree_blocks h p sb = Inr (0, p')" and "nr_used_bits h sb \<le> 8 * SIMPLEFS_BLOCK_SIZE"
  shows "length (appended p p') = SIMPLEFS_BLOCK_SIZE * max 1 (unat (le32toh h (nr_bfree_blocks sb)))"
proof -
  have "unat (le32toh h (nr_bfree_blocks sb)) - 1 + 1 = max 1 (unat (le32toh h (nr_bfree_blocks sb)))"
    by (simp add: max_def)
  then show ?thesis by (simp only: bfree_appended [OF assms] region_length)
qed

lemma bfree_bits:
  assumes "write_bfree_blocks h p sb = Inr (0, p')" and "nr_used_bits h sb \<le> 8 * SIMPLEFS_BLOCK_SIZE"
    and "t < 8 * length (appended p p')"
  shows "bit_at (appended p p') t \<longleftrightarrow> nr_used_bits h sb \<le> t"
  using assms(3) unfolding bfree_appended [OF assms(1,2)]
  by (intro region_bits assms(2))

lemma ifree_first_free:
  assumes "write_ifree_blocks h p sb = (0, p')" and "2 \<le> cnt"
  shows "find_first_free \<lparr>bm_buf = appended p p', logical_count = cnt\<rparr> = Inr 1"
proof (rule find_first_free_prefix)
  show "1 < cnt" using assms(2) by simp
  fix t :: nat assume "t \<le> 1"
  then have "t < 8 * length (appended p p')"
    by (simp add: ifree_length [OF assms(1)] SIMPLEFS_BLOCK_SIZE_def max_def)
  then show "bit_at (appended p p') t \<longleftrightarrow> 1 \<le> t" by (rule ifree_bits [OF assms(1)])
qed

lemma bfree_first_free:
  assumes "write_bfree_blocks h p sb = Inr (0, p')" and "nr_used_bits h sb \<le> 8 * SIMPLEFS_BLOCK_SIZE"
    and "nr_used_bits h sb < cnt" and "cnt \<le> 8 * length (appended p p')"
  shows "find_first_free \<lparr>bm_buf = appended p p', logical_count = cnt\<rparr> = Inr (nr_used_bits h sb)"
proof (rule find_first_free_prefix)
  show "nr_used_bits h sb < cnt" by (rule assms(3))
  fix t :: nat assume "t \<le> nr_used_bits h sb"
  then have "t < 8 * length (appended p p')" using assms(3,4) by simp
  then show "bit_at (appended p p') t \<longleftrightarrow> nr_used_bits h sb \<le> t"
    by (rule bfree_bits [OF assms(1,2)])
qed

lemma sb_101:
  "superblock_info LittleEndian mg (superblock_locals 56 413696) =
     \<lparr>magic = mg, nr_blocks = 101, nr_inodes = 112, nr_istore_blocks = 2,
      nr_ifree_blocks = 1, nr_bfree_blocks = 1, nr_free_inodes = 111, nr_free_blocks = 96\<rparr>"
  by (simp add: superblock_info_def locals_101 htole32_def)

lemma nr_used_101:
  "nr_used_bits LittleEndian (superblock_info LittleEndian mg (superblock_locals 56 413696)) = 6"
  by (simp add: sb_101 nr_used_bits_def le32toh_def)

lemma first_data_block_unat:
  assumes "nr_used_bits h sb \<le> 8 * SIMPLEFS_BLOCK_SIZE"
  shows "unat (first_data_block h sb) + 1 = nr_used_bits h sb"
proof -
  have "nr_used_bits h sb < 2 ^ 32" using assms by (simp add: SIMPLEFS_BLOCK_SIZE_def)
  then have "1 + unat (le32toh h (nr_bfree_blocks sb)) + unat (le32toh h (nr_ifree_blocks sb))
              + unat (le32toh h (nr_istore_blocks sb)) < 2 ^ 32"
    by (simp add: nr_used_bits_def)
  then show ?thesis
    by (simp add: first_data_block_def nr_used_bits_def unat_word_ariths)
qed

section \<open>The block bitmap\<close>

text \<open>
  C3 (as amended). When \<open>write_bfree_blocks\<close> returns 0 and the number
  \<open>N = 1 + nr_istore_blocks + nr_ifree_blocks + nr_bfree_blocks + 1\<close> is at most the
  32768 bits of one bitmap block, the bitmap it appended to the image has
  \<open>max 1 nr_bfree_blocks\<close> blocks, its first \<open>N\<close> bits are in use (0) and every other
  bit of its blocks is free (1). The used run is written into the first bitmap block
  only; nothing is carried over a block boundary.
\<close>

theorem block_bitmap_used_prefix:
  assumes "write_bfree_blocks h p sb = Inr (0, p')"
    and "nr_used_bits h sb \<le> 8 * SIMPLEFS_BLOCK_SIZE"
    and "t < 8 * (SIMPLEFS_BLOCK_SIZE * max 1 (unat (le32toh h (nr_bfree_blocks sb))))"
  shows "length (appended p p') = SIMPLEFS_BLOCK_SIZE * max 1 (unat (le32toh h (nr_bfree_blocks sb)))
         \<and> (bit_at (appended p p') t \<longleftrightarrow> nr_used_bits h sb \<le> t)"
proof -
  have len: "length (appended p p') = SIMPLEFS_BLOCK_SIZE * max 1 (unat (le32toh h (nr_bfree_blocks sb)))"
    by (rule bfree_length [OF assms(1,2)])
  with assms(3) have "t < 8 * length (appended p p')" by simp
  with len show ?thesis by (simp only: bfree_bits [OF assms(1,2)] simp_thms)
qed

theorem block_bitmap_used_prefix_witness:
  "(case write_bfree_blocks LittleEndian \<lparr>image = [], wr_left = 1, heap_left = 1, stderr = []\<rparr>
           (superblock_info LittleEndian 0xDEADCE11 (superblock_locals 56 (101 * 4096))) of
      Inr (r, p') \<Rightarrow>
        r = 0 \<and> length (appended \<lparr>image = [], wr_left = 1, heap_left = 1, stderr = []\<rparr> p') = 4096
        \<and> \<not> bit_at (appended \<lparr>image = [], wr_left = 1, heap_left = 1, stderr = []\<rparr> p') 5
        \<and> bit_at (appended \<lparr>image = [], wr_left = 1, heap_left = 1, stderr = []\<rparr> p') 6
    | Inl f \<Rightarrow> False)"
proof -
  let ?p = "\<lparr>image = [], wr_left = 1, heap_left = 1, stderr = []\<rparr>"
  let ?sb = "superblock_info LittleEndian 0xDEADCE11 (superblock_locals 56 413696)"
  have n: "nr_used_bits LittleEndian ?sb \<le> 8 * SIMPLEFS_BLOCK_SIZE"
    by (simp add: nr_used_101 SIMPLEFS_BLOCK_SIZE_def)
  have "\<exists>p'. write_bfree_blocks LittleEndian ?p ?sb = Inr (0, p')"
    by (rule bfree_succeeds [OF n]) (simp_all add: sb_101 le32toh_def)
  then obtain p' where ok: "write_bfree_blocks LittleEndian ?p ?sb = Inr (0, p')" ..
  have "length (appended ?p p') = 4096" "\<not> bit_at (appended ?p p') 5" "bit_at (appended ?p p') 6"
    using block_bitmap_used_prefix [OF ok n, of 5] block_bitmap_used_prefix [OF ok n, of 6]
    by (simp_all add: nr_used_bits_def sb_101 le32toh_def SIMPLEFS_BLOCK_SIZE_def)
  with ok show ?thesis by simp
qed

text \<open>
  For a device of 1835008 blocks (7 GiB) with 56 inodes per block, \<open>N\<close> is 32882: the
  run does not fit the one block that the function allocates, and the store for the
  513th word leaves the block.
\<close>

theorem block_bitmap_overrun:
  "write_bfree_blocks LittleEndian \<lparr>image = [], wr_left = 1000, heap_left = 1, stderr = []\<rparr>
     (superblock_info LittleEndian 0xDEADCE11 (superblock_locals 56 7516192768))
   = Inl BufferOverrun"
proof -
  have g: "superblock_locals 56 7516192768 =
     \<lparr>l_nr_blocks = 1835008, l_nr_inodes = 1835008, l_nr_istore_blocks = 32768,
      l_nr_ifree_blocks = 56, l_nr_bfree_blocks = 56, l_nr_data_blocks = 1802128\<rparr>"
    by (simp add: superblock_locals_def SIMPLEFS_BLOCK_SIZE_def tdiv_def idiv_ceil_def Let_def)
  have n: "nr_used_bits LittleEndian (superblock_info LittleEndian 0xDEADCE11 (superblock_locals 56 7516192768)) = 32882"
    by (simp add: g superblock_info_def htole32_def nr_used_bits_def le32toh_def)
  show ?thesis
    by (rule write_bfree_blocks_overrun) (simp_all add: n SIMPLEFS_BLOCK_SIZE_def)
qed

section \<open>The padding bits\<close>

text \<open>
  C4 (as amended). In both bitmaps produced by format, every padding bit beyond the
  logical count (the inode count for the inode bitmap, the block count for the block
  bitmap) up to the end of the bitmap's last block is initialized as free (bit value 1),
  like the free logical bits; format marks no padding bit as used. (For the block bitmap:
  when \<open>N\<close> is at most 32768 and at most the block count.) An index that
  \<open>find_first_free\<close> returns is below the logical count all the same, because the scan
  stops at the logical count.
\<close>

theorem padding_bits_left_free:
  assumes "write_ifree_blocks h p sb = (0, p')" and "write_bfree_blocks h q sb = Inr (0, q')"
    and "nr_used_bits h sb \<le> 8 * SIMPLEFS_BLOCK_SIZE"
    and "nr_used_bits h sb \<le> unat (le32toh h (nr_blocks sb))"
    and "1 \<le> unat (le32toh h (nr_inodes sb))"
    and "unat (le32toh h (nr_inodes sb)) \<le> i"
    and "i < 8 * (SIMPLEFS_BLOCK_SIZE * max 1 (unat (le32toh h (nr_ifree_blocks sb))))"
    and "unat (le32toh h (nr_blocks sb)) \<le> b"
    and "b < 8 * (SIMPLEFS_BLOCK_SIZE * max 1 (unat (le32toh h (nr_bfree_blocks sb))))"
    and "find_first_free \<lparr>bm_buf = appended p p',
                          logical_count = unat (le32toh h (nr_inodes sb))\<rparr> = Inr fi"
    and "find_first_free \<lparr>bm_buf = appended q q',
                          logical_count = unat (le32toh h (nr_blocks sb))\<rparr> = Inr fb"
  shows "bit_at (appended p p') i \<and> bit_at (appended q q') b
         \<and> fi < unat (le32toh h (nr_inodes sb)) \<and> fb < unat (le32toh h (nr_blocks sb))"
proof -
  have "i < 8 * length (appended p p')"
    using assms(7) by (simp only: ifree_length [OF assms(1)])
  then have "bit_at (appended p p') i \<longleftrightarrow> 1 \<le> i" by (rule ifree_bits [OF assms(1)])
  moreover have "b < 8 * length (appended q q')"
    using assms(9) by (simp only: bfree_length [OF assms(2,3)])
  then have "bit_at (appended q q') b \<longleftrightarrow> nr_used_bits h sb \<le> b"
    by (rule bfree_bits [OF assms(2,3)])
  moreover have "fi < unat (le32toh h (nr_inodes sb))" "fb < unat (le32toh h (nr_blocks sb))"
    using find_first_free_bound [OF assms(10)] find_first_free_bound [OF assms(11)] by simp_all
  ultimately show ?thesis using assms(4,5,6,8) by simp
qed

theorem padding_bits_left_free_witness:
  "(case write_ifree_blocks LittleEndian \<lparr>image = [], wr_left = 1, heap_left = 1, stderr = []\<rparr>
           (superblock_info LittleEndian 0xDEADCE11 (superblock_locals 56 (101 * 4096))) of
      (r, p') \<Rightarrow>
        r = 0 \<and> bit_at (appended \<lparr>image = [], wr_left = 1, heap_left = 1, stderr = []\<rparr> p') 32767)
   \<and> (case write_bfree_blocks LittleEndian \<lparr>image = [], wr_left = 1, heap_left = 1, stderr = []\<rparr>
           (superblock_info LittleEndian 0xDEADCE11 (superblock_locals 56 (101 * 4096))) of
      Inr (r, q') \<Rightarrow>
        r = 0 \<and> bit_at (appended \<lparr>image = [], wr_left = 1, heap_left = 1, stderr = []\<rparr> q') 32767
    | Inl f \<Rightarrow> False)"
proof -
  let ?p = "\<lparr>image = [], wr_left = 1, heap_left = 1, stderr = []\<rparr>"
  let ?sb = "superblock_info LittleEndian 0xDEADCE11 (superblock_locals 56 413696)"
  have n: "nr_used_bits LittleEndian ?sb \<le> 8 * SIMPLEFS_BLOCK_SIZE"
    by (simp add: nr_used_101 SIMPLEFS_BLOCK_SIZE_def)
  have "\<exists>q'. write_bfree_blocks LittleEndian ?p ?sb = Inr (0, q')"
    by (rule bfree_succeeds [OF n]) (simp_all add: sb_101 le32toh_def)
  then obtain q' where okb: "write_bfree_blocks LittleEndian ?p ?sb = Inr (0, q')" ..
  have "fst (write_ifree_blocks LittleEndian ?p ?sb) = 0"
    by (rule ifree_succeeds) (simp_all add: sb_101 le32toh_def)
  then obtain p' where oki: "write_ifree_blocks LittleEndian ?p ?sb = (0, p')"
    by (cases "write_ifree_blocks LittleEndian ?p ?sb") simp
  have fi: "find_first_free \<lparr>bm_buf = appended ?p p',
              logical_count = unat (le32toh LittleEndian (nr_inodes ?sb))\<rparr> = Inr 1"
    by (rule ifree_first_free [OF oki]) (simp add: sb_101 le32toh_def)
  have "unat (le32toh LittleEndian (nr_blocks ?sb)) \<le> 8 * length (appended ?p q')"
    using bfree_length [OF okb n] by (simp add: sb_101 le32toh_def SIMPLEFS_BLOCK_SIZE_def max_def)
  from bfree_first_free [OF okb n _ this]
  have fb: "find_first_free \<lparr>bm_buf = appended ?p q',
              logical_count = unat (le32toh LittleEndian (nr_blocks ?sb))\<rparr>
            = Inr (nr_used_bits LittleEndian ?sb)"
    by (simp add: nr_used_bits_def sb_101 le32toh_def)
  have "bit_at (appended ?p p') 32767 \<and> bit_at (appended ?p q') 32767"
    using padding_bits_left_free [OF oki okb _ _ _ _ _ _ _ fi fb, of 32767 32767]
    by (simp add: sb_101 nr_used_bits_def le32toh_def SIMPLEFS_BLOCK_SIZE_def)
  with oki okb show ?thesis by simp
qed

text \<open>
  On the device of 101 blocks, with 112 inodes: bit 112 of the inode bitmap and bit 101 of
  the block bitmap, the first padding bit of each, are 1.
\<close>

theorem padding_bits_not_used:
  "(case write_ifree_blocks LittleEndian \<lparr>image = [], wr_left = 1, heap_left = 1, stderr = []\<rparr>
           (superblock_info LittleEndian 0xDEADCE11 (superblock_locals 56 (101 * 4096))) of
      (r, p') \<Rightarrow>
        r = 0 \<and> bit_at (appended \<lparr>image = [], wr_left = 1, heap_left = 1, stderr = []\<rparr> p') 112)
   \<and> (case write_bfree_blocks LittleEndian \<lparr>image = [], wr_left = 1, heap_left = 1, stderr = []\<rparr>
           (superblock_info LittleEndian 0xDEADCE11 (superblock_locals 56 (101 * 4096))) of
      Inr (r, q') \<Rightarrow>
        r = 0 \<and> bit_at (appended \<lparr>image = [], wr_left = 1, heap_left = 1, stderr = []\<rparr> q') 101
    | Inl f \<Rightarrow> False)"
proof -
  let ?p = "\<lparr>image = [], wr_left = 1, heap_left = 1, stderr = []\<rparr>"
  let ?sb = "superblock_info LittleEndian 0xDEADCE11 (superblock_locals 56 413696)"
  have n: "nr_used_bits LittleEndian ?sb \<le> 8 * SIMPLEFS_BLOCK_SIZE"
    by (simp add: nr_used_101 SIMPLEFS_BLOCK_SIZE_def)
  have "\<exists>q'. write_bfree_blocks LittleEndian ?p ?sb = Inr (0, q')"
    by (rule bfree_succeeds [OF n]) (simp_all add: sb_101 le32toh_def)
  then obtain q' where okb: "write_bfree_blocks LittleEndian ?p ?sb = Inr (0, q')" ..
  have "fst (write_ifree_blocks LittleEndian ?p ?sb) = 0"
    by (rule ifree_succeeds) (simp_all add: sb_101 le32toh_def)
  then obtain p' where oki: "write_ifree_blocks LittleEndian ?p ?sb = (0, p')"
    by (cases "write_ifree_blocks LittleEndian ?p ?sb") simp
  have "112 < 8 * length (appended ?p p')"
    using ifree_length [OF oki] by (simp add: SIMPLEFS_BLOCK_SIZE_def max_def)
  from ifree_bits [OF oki this] have i: "bit_at (appended ?p p') 112" by simp
  have "101 < 8 * length (appended ?p q')"
    using bfree_length [OF okb n] by (simp add: SIMPLEFS_BLOCK_SIZE_def max_def)
  from bfree_bits [OF okb n this] have "bit_at (appended ?p q') 101"
    by (simp add: nr_used_101)
  with i oki okb show ?thesis by simp
qed

section \<open>The first free bit after format\<close>

text \<open>
  C5 (as amended). When both bitmap writers return 0, the inode count is at least 2,
  \<open>N\<close> is at most 32768 and below the block count, and the block count fits the block
  bitmap, then the lowest-index-first scan over the inode bitmap returns 1, and over the
  block bitmap it returns \<open>first_data_block + 1\<close>: the first data block is the root
  directory's and is marked in use, so the first free block is the one after it.
\<close>

theorem first_free_after_format:
  assumes "write_ifree_blocks h p sb = (0, p')" and "write_bfree_blocks h q sb = Inr (0, q')"
    and "2 \<le> unat (le32toh h (nr_inodes sb))"
    and "nr_used_bits h sb \<le> 8 * SIMPLEFS_BLOCK_SIZE"
    and "nr_used_bits h sb < unat (le32toh h (nr_blocks sb))"
    and "unat (le32toh h (nr_blocks sb))
           \<le> 8 * (SIMPLEFS_BLOCK_SIZE * max 1 (unat (le32toh h (nr_bfree_blocks sb))))"
  shows "find_first_free \<lparr>bm_buf = appended p p', logical_count = unat (le32toh h (nr_inodes sb))\<rparr>
           = Inr 1
         \<and> find_first_free \<lparr>bm_buf = appended q q', logical_count = unat (le32toh h (nr_blocks sb))\<rparr>
           = Inr (unat (first_data_block h sb) + 1)"
proof -
  have "unat (le32toh h (nr_blocks sb)) \<le> 8 * length (appended q q')"
    using assms(6) by (simp only: bfree_length [OF assms(2,4)])
  from bfree_first_free [OF assms(2,4,5) this] ifree_first_free [OF assms(1,3)]
  show ?thesis by (simp only: first_data_block_unat [OF assms(4)] simp_thms)
qed

theorem first_free_after_format_witness:
  "(case write_ifree_blocks LittleEndian \<lparr>image = [], wr_left = 1, heap_left = 1, stderr = []\<rparr>
           (superblock_info LittleEndian 0xDEADCE11 (superblock_locals 56 (101 * 4096))) of
      (r, p') \<Rightarrow>
        r = 0 \<and> find_first_free
                  \<lparr>bm_buf = appended \<lparr>image = [], wr_left = 1, heap_left = 1, stderr = []\<rparr> p',
                   logical_count = 112\<rparr> = Inr 1)
   \<and> (case write_bfree_blocks LittleEndian \<lparr>image = [], wr_left = 1, heap_left = 1, stderr = []\<rparr>
           (superblock_info LittleEndian 0xDEADCE11 (superblock_locals 56 (101 * 4096))) of
      Inr (r, q') \<Rightarrow>
        r = 0 \<and> find_first_free
                  \<lparr>bm_buf = appended \<lparr>image = [], wr_left = 1, heap_left = 1, stderr = []\<rparr> q',
                   logical_count = 101\<rparr> = Inr 6
    | Inl f \<Rightarrow> False)"
proof -
  let ?p = "\<lparr>image = [], wr_left = 1, heap_left = 1, stderr = []\<rparr>"
  let ?sb = "superblock_info LittleEndian 0xDEADCE11 (superblock_locals 56 413696)"
  have n: "nr_used_bits LittleEndian ?sb \<le> 8 * SIMPLEFS_BLOCK_SIZE"
    by (simp add: nr_used_101 SIMPLEFS_BLOCK_SIZE_def)
  have "\<exists>q'. write_bfree_blocks LittleEndian ?p ?sb = Inr (0, q')"
    by (rule bfree_succeeds [OF n]) (simp_all add: sb_101 le32toh_def)
  then obtain q' where okb: "write_bfree_blocks LittleEndian ?p ?sb = Inr (0, q')" ..
  have "fst (write_ifree_blocks LittleEndian ?p ?sb) = 0"
    by (rule ifree_succeeds) (simp_all add: sb_101 le32toh_def)
  then obtain p' where oki: "write_ifree_blocks LittleEndian ?p ?sb = (0, p')"
    by (cases "write_ifree_blocks LittleEndian ?p ?sb") simp
  have "find_first_free \<lparr>bm_buf = appended ?p p', logical_count = 112\<rparr> = Inr 1
      \<and> find_first_free \<lparr>bm_buf = appended ?p q', logical_count = 101\<rparr> = Inr 6"
    using first_free_after_format [OF oki okb]
    by (simp add: sb_101 nr_used_bits_def first_data_block_def le32toh_def SIMPLEFS_BLOCK_SIZE_def)
  with oki okb show ?thesis by simp
qed

text \<open>
  On the device of 101 blocks the first data block is block 5 and the scan over the block
  bitmap returns 6.
\<close>

theorem first_free_block_is_not_first_data_block:
  "(case write_bfree_blocks LittleEndian \<lparr>image = [], wr_left = 1, heap_left = 1, stderr = []\<rparr>
           (superblock_info LittleEndian 0xDEADCE11 (superblock_locals 56 (101 * 4096))) of
      Inr (r, q') \<Rightarrow>
        r = 0
        \<and> unat (first_data_block LittleEndian
                   (superblock_info LittleEndian 0xDEADCE11 (superblock_locals 56 (101 * 4096)))) = 5
        \<and> find_first_free
             \<lparr>bm_buf = appended \<lparr>image = [], wr_left = 1, heap_left = 1, stderr = []\<rparr> q',
              logical_count = 101\<rparr> = Inr 6
    | Inl f \<Rightarrow> False)"
proof -
  let ?p = "\<lparr>image = [], wr_left = 1, heap_left = 1, stderr = []\<rparr>"
  let ?sb = "superblock_info LittleEndian 0xDEADCE11 (superblock_locals 56 413696)"
  have n: "nr_used_bits LittleEndian ?sb \<le> 8 * SIMPLEFS_BLOCK_SIZE"
    by (simp add: nr_used_101 SIMPLEFS_BLOCK_SIZE_def)
  have "\<exists>q'. write_bfree_blocks LittleEndian ?p ?sb = Inr (0, q')"
    by (rule bfree_succeeds [OF n]) (simp_all add: sb_101 le32toh_def)
  then obtain q' where okb: "write_bfree_blocks LittleEndian ?p ?sb = Inr (0, q')" ..
  have "101 \<le> 8 * length (appended ?p q')"
    using bfree_length [OF okb n] by (simp add: SIMPLEFS_BLOCK_SIZE_def max_def)
  from bfree_first_free [OF okb n _ this]
  have "find_first_free \<lparr>bm_buf = appended ?p q', logical_count = 101\<rparr> = Inr 6"
    by (simp add: nr_used_101)
  moreover have "unat (first_data_block LittleEndian ?sb) = 5"
    by (simp add: sb_101 first_data_block_def le32toh_def)
  ultimately show ?thesis using okb by simp
qed



section \<open>The superblock on disk\<close>

lemma length_mem_bytes [simp]: "length (mem_bytes h n w) = n"
  by (cases h) (simp_all add: mem_bytes_def)

lemma mem_word_mem_bytes32: "mem_word h (mem_bytes h 4 (w :: u32)) = w"
  by (cases h) (simp_all add: mem_word_def mem_bytes_def le_word_le_bytes)

lemma mem_bytes_mem_word32: "length bs = 4 \<Longrightarrow> mem_bytes h 4 (mem_word h bs :: u32) = bs"
  by (cases h) (simp_all add: mem_word_def mem_bytes_def le_bytes_le_word)

text \<open>What the format tool writes for the superblock does not depend on its host.\<close>

lemma superblock_bytes_le:
  "superblock_bytes h (superblock_info h mg g) =
     concat (map (le_bytes 4)
       [mg, l_nr_blocks g, l_nr_inodes g, l_nr_istore_blocks g, l_nr_ifree_blocks g,
        l_nr_bfree_blocks g, l_nr_inodes g - 1, l_nr_data_blocks g - 1])
     @ replicate 4064 0"
  by (simp add: superblock_bytes_def superblock_info_def mem_bytes_htole32)

lemma csb_view_fields:
  assumes "length f0 = 4" "length f1 = 4" "length f2 = 4" "length f3 = 4"
    "length f4 = 4" "length f5 = 4" "length f6 = 4" "length f7 = 4"
  shows "csb_view h (concat [f0, f1, f2, f3, f4, f5, f6, f7] @ rest) =
     \<lparr>magic = mem_word h f0, nr_blocks = mem_word h f1, nr_inodes = mem_word h f2,
      nr_istore_blocks = mem_word h f3, nr_ifree_blocks = mem_word h f4,
      nr_bfree_blocks = mem_word h f5, nr_free_inodes = mem_word h f6,
      nr_free_blocks = mem_word h f7\<rparr>"
  using assms by (simp add: csb_view_def csb_field_def)

text \<open>On a little-endian host the mount loader's view of the block has the eight values.\<close>

lemma csb_view_little_endian:
  "csb_view LittleEndian (superblock_bytes h (superblock_info h mg g)) =
     superblock_info LittleEndian mg g"
  unfolding superblock_bytes_le
  by (simp add: csb_view_fields [simplified] mem_word_def le_word_le_bytes superblock_info_def htole32_def)

lemma csb_view_big_endian:
  "csb_view BigEndian (superblock_bytes h (superblock_info h mg g)) =
     superblock_info BigEndian mg g"
  unfolding superblock_bytes_le
  by (simp add: csb_view_fields [simplified] mem_word_def superblock_info_def htole32_def bswap32_def)

lemma bswap32_101: "bswap32 101 = 0x65000000"
  by (simp add: bswap32_def le_bytes_def upt_conv_Cons)

lemma bswap32_magic: "bswap32 0xDEADCE11 = 0x11CEADDE"
  by (simp add: bswap32_def le_bytes_def upt_conv_Cons)

text \<open>
  C6 (the code departs from it). The format tool encodes with \<open>htole32\<close>, but the mount
  loader reads the fields through a struct pointer in the host's own byte order, without
  \<open>le32toh\<close>. On a big-endian host the superblock written for a device of 101 blocks
  with magic number 0xDEADCE11 is seen with magic number 0x11CEADDE and a block count of
  0x65000000.
\<close>

theorem big_endian_mount_reads_swapped:
  "magic (csb_view BigEndian
      (superblock_bytes LittleEndian
         (superblock_info LittleEndian 0xDEADCE11 (superblock_locals 56 (101 * 4096))))) = 0x11CEADDE
   \<and> nr_blocks (csb_view BigEndian
      (superblock_bytes LittleEndian
         (superblock_info LittleEndian 0xDEADCE11 (superblock_locals 56 (101 * 4096))))) = 0x65000000"
  by (simp only: csb_view_big_endian)
     (simp add: superblock_info_def locals_101 htole32_def bswap32_101 bswap32_magic)

section \<open>The magic number at mount\<close>

text \<open>
  C7. When block 0 can be read and its first four bytes, the stored magic-number field,
  differ in any way from the bytes of the expected constant as the host keeps it,
  \<open>simplefs_fill_super\<close> returns \<open>-EINVAL\<close>; there is no in-memory superblock, no
  allocation was attempted (\<open>kmem_left\<close> and the log tell), and the only block read is
  block 0. The instance below flips one bit of the third byte of a correct field.
\<close>

theorem fill_super_bad_magic:
  assumes "blocks k SIMPLEFS_SB_BLOCK_NR = Some b_data" and "4 \<le> length b_data"
    and "take 4 b_data \<noteq> mem_bytes h 4 mg"
  shows "simplefs_fill_super h mg env k =
           Inr (- EINVAL, None, k\<lparr>klog := klog k @ [Bread SIMPLEFS_SB_BLOCK_NR]\<rparr>)"
proof -
  have "length (take 4 b_data) = 4" using assms(2) by simp
  then have "mem_bytes h 4 (mem_word h (take 4 b_data) :: u32) = take 4 b_data"
    by (rule mem_bytes_mem_word32)
  with assms(3) have "(mem_word h (take 4 b_data) :: u32) \<noteq> mg" by auto
  then have "magic (csb_view h b_data) \<noteq> mg" by (simp add: csb_view_def csb_field_def)
  with assms(1) show ?thesis
    by (simp add: simplefs_fill_super_def sb_bread_def Let_def)
qed

theorem fill_super_bad_magic_witness:
  "simplefs_fill_super LittleEndian 0xDEADCE11
     \<lparr>iget_error = None, d_make_root_ok = True\<rparr>
     \<lparr>blocks = [0 \<mapsto> [0x11, 0xCE, 0xAC, 0xDE] @ replicate 4092 0], klog = [], kmem_left = 3\<rparr>
   = Inr (- EINVAL, None,
          \<lparr>blocks = [0 \<mapsto> [0x11, 0xCE, 0xAC, 0xDE] @ replicate 4092 0], klog = [Bread 0],
           kmem_left = 3\<rparr>)"
  using fill_super_bad_magic [of
     "\<lparr>blocks = [0 \<mapsto> [0x11, 0xCE, 0xAC, 0xDE] @ replicate 4092 0], klog = [], kmem_left = 3\<rparr>"
     "[0x11, 0xCE, 0xAC, 0xDE] @ replicate 4092 0" LittleEndian "0xDEADCE11"
     "\<lparr>iget_error = None, d_make_root_ok = True\<rparr>"]
  by (simp add: SIMPLEFS_SB_BLOCK_NR_def mem_bytes_def le_bytes_def upt_conv_Cons)

section \<open>The free counters\<close>

text \<open>
  C2 (the code departs from it in the free-block counter). On a device of 101 blocks,
  56 inodes per block, the superblock that is written holds 112 inodes with 111 free;
  the first data block is block 5, which leaves 101 - 5 = 96 data blocks; the free-block
  counter is 96, where the data-block count less the root directory's block is 95. The
  block bitmap that the same run writes has 95 free bits below the block count.
\<close>

theorem free_counters_101:
  "(case write_superblock LittleEndian 56 0xDEADCE11
           \<lparr>image = [], wr_left = 2, heap_left = 2, stderr = []\<rparr> (101 * 4096) of
      (Some sb, p') \<Rightarrow>
        nr_inodes sb = 112 \<and> nr_free_inodes sb = 111
        \<and> unat (nr_blocks sb) - unat (first_data_block LittleEndian sb) = 96
        \<and> nr_free_blocks sb = 96
        \<and> (case write_bfree_blocks LittleEndian p' sb of
              Inr (r, q') \<Rightarrow> r = 0 \<and> card {t. t < 101 \<and> bit_at (appended p' q') t} = 95
            | Inl f \<Rightarrow> False)
    | (None, p') \<Rightarrow> False)"
proof -
  let ?sb = "superblock_info LittleEndian 0xDEADCE11 (superblock_locals 56 413696)"
  let ?p' = "\<lparr>image = [superblock_bytes LittleEndian ?sb], wr_left = 1, heap_left = 1, stderr = []\<rparr>"
  have ws: "write_superblock LittleEndian 56 0xDEADCE11
           \<lparr>image = [], wr_left = 2, heap_left = 2, stderr = []\<rparr> (101 * 4096) = (Some ?sb, ?p')"
    by (simp add: write_superblock_def malloc_closed write_fd_closed Let_def)
  have n: "nr_used_bits LittleEndian ?sb \<le> 8 * SIMPLEFS_BLOCK_SIZE"
    by (simp add: nr_used_101 SIMPLEFS_BLOCK_SIZE_def)
  have "\<exists>q'. write_bfree_blocks LittleEndian ?p' ?sb = Inr (0, q')"
    by (rule bfree_succeeds [OF n]) (simp_all add: sb_101 le32toh_def)
  then obtain q' where okb: "write_bfree_blocks LittleEndian ?p' ?sb = Inr (0, q')" ..
  have len: "101 \<le> 8 * length (appended ?p' q')"
    using bfree_length [OF okb n] by (simp add: SIMPLEFS_BLOCK_SIZE_def max_def)
  have "{t. t < 101 \<and> bit_at (appended ?p' q') t} = {6..<101}"
  proof -
    have "bit_at (appended ?p' q') t \<longleftrightarrow> 6 \<le> t" if "t < 101" for t
    proof -
      from that len have "t < 8 * length (appended ?p' q')" by simp
      from bfree_bits [OF okb n this] show ?thesis by (simp only: nr_used_101)
    qed
    then show ?thesis by auto
  qed
  then have c: "card {t. t < 101 \<and> bit_at (appended ?p' q') t} = 95" by simp
  have f: "nr_inodes ?sb = 112" "nr_free_inodes ?sb = 111" "nr_free_blocks ?sb = 96"
    "unat (nr_blocks ?sb) - unat (first_data_block LittleEndian ?sb) = 96"
    by (simp_all add: sb_101 first_data_block_def le32toh_def)
  show ?thesis
    unfolding ws using okb c f by simp
qed


section \<open>Sync followed by a reload\<close>

lemma blkno_small:
  assumes "unat idx < 2 ^ 31"
  shows "blkno idx = unat idx"
proof -
  have "idx < 2 ^ 31" using assms by (simp add: word_less_nat_alt)
  then have tb: "idx AND mask 31 = idx" by (rule less_mask_eq)
  have nb: "\<not> bit idx 31"
  proof
    assume "bit idx 31"
    then have "bit (idx AND mask 31) 31" by (simp only: tb)
    then show False by (simp add: bit_simps)
  qed
  have "(scast idx :: u64) = ucast idx"
  proof (rule bit_word_eqI)
    fix n assume "n < LENGTH(64)"
    moreover have "\<not> bit idx n" if "31 \<le> n"
    proof
      assume b: "bit idx n"
      then have "n < 32" by (auto dest: bit_imp_le_length)
      with that have "n = 31" by simp
      with b nb show False by simp
    qed
    ultimately show "bit (scast idx :: u64) n = bit (ucast idx :: u64) n"
      using nb by (auto simp: bit_simps min_def)
  qed
  moreover have "unat (ucast idx :: u64) = unat idx"
  proof -
    have "unat idx < 2 ^ 64" using assms by simp
    then show ?thesis by (simp add: unsigned_ucast_eq take_bit_nat_eq_self)
  qed
  ultimately show ?thesis by (simp add: blkno_def)
qed

lemma concat_slices:
  "concat (map (\<lambda>j. take c (drop (j * c) xs)) [0..<n]) = take (n * c) xs"
proof (induction n)
  case 0 then show ?case by simp
next
  case (Suc n)
  have "take (n * c) xs @ take c (drop (n * c) xs) = take (n * c + c) xs"
    by (simp add: take_add)
  with Suc show ?case by (simp add: add.commute)
qed

lemma idx_unat:
  assumes "unat base + unat n + 1 < 2 ^ 31" and "(i :: u32) < n"
  shows "unat (base + i + 1) = unat base + unat i + 1"
proof -
  have i: "unat i < unat n" using assms(2) by (simp add: word_less_nat_alt)
  have "unat base + unat i < 2 ^ LENGTH(32)" using assms(1) i by simp
  then have a: "unat (base + i) = unat base + unat i" by (simp only: unat_add_lem)
  have "unat (base + i) + unat (1 :: u32) < 2 ^ LENGTH(32)" using assms(1) i a by simp
  then have "unat (base + i + 1) = unat (base + i) + unat (1 :: u32)" by (simp only: unat_add_lem)
  with a show ?thesis by simp
qed

lemma idx_blkno:
  assumes "unat base + unat n + 1 < 2 ^ 31" and "(i :: u32) < n"
  shows "blkno (base + i + 1) = unat base + unat i + 1"
proof -
  have i: "unat i < unat n" using assms(2) by (simp add: word_less_nat_alt)
  have "unat (base + i + 1) < 2 ^ 31" using idx_unat [OF assms] assms(1) i by simp
  then show ?thesis by (simp only: blkno_small idx_unat [OF assms])
qed

lemma flush_bitmap_ok:
  assumes "unat base + unat n + 1 < 2 ^ 31"
    and "\<forall>j. unat i \<le> j \<and> j < unat n \<longrightarrow> blocks k (unat base + j + 1) \<noteq> None"
    and "unat n * SIMPLEFS_BLOCK_SIZE \<le> length bitmap"
  shows "\<exists>k'. flush_bitmap base i n bitmap wait k = Inr (True, k')
           \<and> kmem_left k' = kmem_left k
           \<and> (\<forall>m. blocks k' m =
                 (if unat base + unat i + 1 \<le> m \<and> m \<le> unat base + unat n
                  then Some (take SIMPLEFS_BLOCK_SIZE
                               (drop ((m - unat base - 1) * SIMPLEFS_BLOCK_SIZE) bitmap))
                  else blocks k m))"
  using assms
proof (induction base i n bitmap wait k rule: flush_bitmap.induct)
  case (1 base i n bitmap wait k)
  show ?case
  proof (cases "i < n")
    case False
    then have "unat n \<le> unat i" by (simp add: word_less_nat_alt)
    with False show ?thesis by (subst flush_bitmap.simps) auto
  next
    case True
    then have i: "unat i < unat n" by (simp add: word_less_nat_alt)
    define m0 where "m0 = unat base + unat i + 1"
    have bk: "blkno (base + i + 1) = m0"
      unfolding m0_def by (rule idx_blkno [OF "1.prems"(1) True])
    from "1.prems"(2) i obtain b where b: "blocks k m0 = Some b"
      unfolding m0_def by (metis le_refl not_None_eq)
    have fits: "(unat i + 1) * SIMPLEFS_BLOCK_SIZE \<le> length bitmap"
    proof -
      have "(unat i + 1) * SIMPLEFS_BLOCK_SIZE \<le> unat n * SIMPLEFS_BLOCK_SIZE"
        using i by (intro mult_le_mono1) simp
      with "1.prems"(3) show ?thesis by simp
    qed
    define k0 where "k0 = k\<lparr>klog := klog k @ [Bread m0]\<rparr>"
    define sl where "sl = take SIMPLEFS_BLOCK_SIZE (drop (unat i * SIMPLEFS_BLOCK_SIZE) bitmap)"
    define k1 where "k1 = put_buffer k0 (blkno (base + i + 1))
        (take SIMPLEFS_BLOCK_SIZE (drop (unat i * SIMPLEFS_BLOCK_SIZE) bitmap)) wait"
    have sb: "sb_bread k m0 = (Some b, k0)" by (simp add: sb_bread_def b k0_def)
    have sb': "(Some b, k0) = sb_bread k (blkno (base + i + 1))" by (simp add: bk sb)
    have step: "flush_bitmap base i n bitmap wait k = flush_bitmap base (i + 1) n bitmap wait k1"
      using True sb fits
      by (subst flush_bitmap.simps) (simp add: Let_def bk k1_def sl_def)
    have ui: "unat (i + 1) = Suc (unat i)" by (rule unat_succ_below [OF True])
    have blk1: "blocks k1 m = (if m = m0 then Some sl else blocks k m)" for m
      by (simp add: k1_def bk sl_def put_buffer_def k0_def)
    have pre2: "\<forall>j. unat (i + 1) \<le> j \<and> j < unat n \<longrightarrow> blocks k1 (unat base + j + 1) \<noteq> None"
      using "1.prems"(2) by (auto simp: ui blk1 m0_def)
    from "1.IH" [OF True refl sb' refl fits "1.prems"(1) pre2 [unfolded k1_def] "1.prems"(3)]
    obtain k' where k': "flush_bitmap base (i + 1) n bitmap wait k1 = Inr (True, k')"
      "kmem_left k' = kmem_left k1"
      and bl: "\<And>m. blocks k' m =
                 (if unat base + unat (i + 1) + 1 \<le> m \<and> m \<le> unat base + unat n
                  then Some (take SIMPLEFS_BLOCK_SIZE
                               (drop ((m - unat base - 1) * SIMPLEFS_BLOCK_SIZE) bitmap))
                  else blocks k1 m)"
      unfolding k1_def [symmetric] by blast
    have km: "kmem_left k1 = kmem_left k" by (simp add: k1_def put_buffer_def k0_def)
    have "blocks k' m =
                 (if unat base + unat i + 1 \<le> m \<and> m \<le> unat base + unat n
                  then Some (take SIMPLEFS_BLOCK_SIZE
                               (drop ((m - unat base - 1) * SIMPLEFS_BLOCK_SIZE) bitmap))
                  else blocks k m)" for m
    proof (cases "m = m0")
      case True
      then have "m - unat base - 1 = unat i" by (simp add: m0_def)
      with True i show ?thesis by (simp add: bl blk1 ui sl_def) (simp add: m0_def)
    next
      case False
      then show ?thesis by (auto simp: bl blk1 ui m0_def)
    qed
    with k' km step show ?thesis by auto
  qed
qed

lemma load_bitmap_ok:
  assumes "unat base + unat n + 1 < 2 ^ 31"
    and "\<forall>j. unat i \<le> j \<and> j < unat n \<longrightarrow>
           blocks k (unat base + j + 1) = Some (f j) \<and> length (f j) = SIMPLEFS_BLOCK_SIZE"
    and "length bitmap = unat n * SIMPLEFS_BLOCK_SIZE"
  shows "\<exists>k'. load_bitmap base i n bitmap k =
                 Inr (Some (take (unat i * SIMPLEFS_BLOCK_SIZE) bitmap
                            @ concat (map f [unat i..<unat n])), k')
           \<and> blocks k' = blocks k \<and> kmem_left k' = kmem_left k"
  using assms
proof (induction base i n bitmap k rule: load_bitmap.induct)
  case (1 base i n bitmap k)
  show ?case
  proof (cases "i < n")
    case False
    then have "unat n \<le> unat i" by (simp add: word_less_nat_alt)
    with False "1.prems"(3) show ?thesis by (subst load_bitmap.simps) simp
  next
    case True
    then have i: "unat i < unat n" by (simp add: word_less_nat_alt)
    define m0 where "m0 = unat base + unat i + 1"
    have bk: "blkno (base + i + 1) = m0"
      unfolding m0_def by (rule idx_blkno [OF "1.prems"(1) True])
    from "1.prems"(2) i have b: "blocks k m0 = Some (f (unat i))"
      and lb: "length (f (unat i)) = SIMPLEFS_BLOCK_SIZE"
      unfolding m0_def by auto
    define k0 where "k0 = k\<lparr>klog := klog k @ [Bread m0]\<rparr>"
    have sb': "(Some (f (unat i)), k0) = sb_bread k (blkno (base + i + 1))"
      by (simp add: bk sb_bread_def b k0_def)
    have fits: "unat i * SIMPLEFS_BLOCK_SIZE + SIMPLEFS_BLOCK_SIZE \<le> length bitmap"
    proof -
      have "(unat i + 1) * SIMPLEFS_BLOCK_SIZE \<le> unat n * SIMPLEFS_BLOCK_SIZE"
        using i by (intro mult_le_mono1) simp
      with "1.prems"(3) show ?thesis by simp
    qed
    define bm' where "bm' = take (unat i * SIMPLEFS_BLOCK_SIZE) bitmap @ f (unat i)
          @ drop (unat i * SIMPLEFS_BLOCK_SIZE + SIMPLEFS_BLOCK_SIZE) bitmap"
    have mc: "memcpy_at bitmap (unat i * SIMPLEFS_BLOCK_SIZE) (take SIMPLEFS_BLOCK_SIZE (f (unat i)))
              = Some bm'"
      using fits lb by (simp add: memcpy_at_def bm'_def)
    have step: "load_bitmap base i n bitmap k = load_bitmap base (i + 1) n bm' k0"
      using True sb' [symmetric] mc by (subst load_bitmap.simps) (simp add: Let_def)
    have ui: "unat (i + 1) = Suc (unat i)" by (rule unat_succ_below [OF True])
    have pre2: "\<forall>j. unat (i + 1) \<le> j \<and> j < unat n \<longrightarrow>
           blocks k0 (unat base + j + 1) = Some (f j) \<and> length (f j) = SIMPLEFS_BLOCK_SIZE"
      using "1.prems"(2) by (simp add: ui k0_def)
    have len': "length bm' = unat n * SIMPLEFS_BLOCK_SIZE"
      using fits lb "1.prems"(3) by (simp add: bm'_def)
    from "1.IH" [OF True refl sb' refl mc "1.prems"(1) pre2 len']
    obtain k' where k': "load_bitmap base (i + 1) n bm' k0 =
                 Inr (Some (take (unat (i + 1) * SIMPLEFS_BLOCK_SIZE) bm'
                            @ concat (map f [unat (i + 1)..<unat n])), k')"
      "blocks k' = blocks k0" "kmem_left k' = kmem_left k0"
      by blast
    have "take (unat (i + 1) * SIMPLEFS_BLOCK_SIZE) bm'
            = take (unat i * SIMPLEFS_BLOCK_SIZE) bitmap @ f (unat i)"
      using fits lb by (simp add: ui bm'_def)
    moreover have "[unat i..<unat n] = unat i # [unat (i + 1)..<unat n]"
      using i by (simp add: ui upt_conv_Cons)
    ultimately have "take (unat (i + 1) * SIMPLEFS_BLOCK_SIZE) bm' @ concat (map f [unat (i + 1)..<unat n])
        = take (unat i * SIMPLEFS_BLOCK_SIZE) bitmap @ concat (map f [unat i..<unat n])"
      by simp
    with k' step show ?thesis by (simp add: k0_def)
  qed
qed

lemma unat_add_small:
  "unat (a :: u32) + unat b < 2 ^ 31 \<Longrightarrow> unat (a + b) = unat a + unat b"
proof -
  assume "unat a + unat b < 2 ^ 31"
  then have "unat a + unat b < 2 ^ LENGTH(32)" by simp
  then show ?thesis by (simp only: unat_add_lem)
qed

lemma sync_fs_ok:
  fixes sbi :: simplefs_sb_mem
  defines "I \<equiv> unat (nr_istore_blocks sbi)" and "F \<equiv> unat (nr_ifree_blocks sbi)"
    and "B \<equiv> unat (nr_bfree_blocks sbi)"
  assumes b0: "blocks k 0 = Some b0"
    and dev: "\<forall>m. 1 \<le> m \<and> m \<le> I + F + B \<longrightarrow> blocks k m \<noteq> None"
    and li: "length (ifree_bitmap sbi) = F * SIMPLEFS_BLOCK_SIZE"
    and lb: "length (bfree_bitmap sbi) = B * SIMPLEFS_BLOCK_SIZE"
    and nw: "I + F + B + 1 < 2 ^ 31"
  shows "\<exists>k'. simplefs_sync_fs h k sbi wait = Inr (0, k') \<and> kmem_left k' = kmem_left k
          \<and> blocks k' 0 = Some (take 4 b0
                @ concat (map (mem_bytes h 4)
                    [nr_blocks sbi, nr_inodes sbi, nr_istore_blocks sbi, nr_ifree_blocks sbi,
                     nr_bfree_blocks sbi, nr_free_inodes sbi, nr_free_blocks sbi])
                @ drop 32 b0)
          \<and> (\<forall>j<F. blocks k' (I + j + 1) =
                 Some (take SIMPLEFS_BLOCK_SIZE (drop (j * SIMPLEFS_BLOCK_SIZE) (ifree_bitmap sbi))))
          \<and> (\<forall>j<B. blocks k' (I + F + j + 1) =
                 Some (take SIMPLEFS_BLOCK_SIZE (drop (j * SIMPLEFS_BLOCK_SIZE) (bfree_bitmap sbi))))"
proof -
  define disk_sb where "disk_sb = take 4 b0
                @ concat (map (mem_bytes h 4)
                    [nr_blocks sbi, nr_inodes sbi, nr_istore_blocks sbi, nr_ifree_blocks sbi,
                     nr_bfree_blocks sbi, nr_free_inodes sbi, nr_free_blocks sbi])
                @ drop 32 b0"
  define k0 where "k0 = k\<lparr>klog := klog k @ [Bread 0]\<rparr>"
  define k1 where "k1 = put_buffer k0 0 disk_sb wait"
  have sb: "sb_bread k 0 = (Some b0, k0)" by (simp add: sb_bread_def b0 k0_def)
  have blk1: "blocks k1 m = (if m = 0 then Some disk_sb else blocks k m)" for m
    by (simp add: k1_def put_buffer_def k0_def)
  have km1: "kmem_left k1 = kmem_left k" by (simp add: k1_def put_buffer_def k0_def)
  \<comment> \<open>the inode bitmap\<close>
  have nwi: "unat (nr_istore_blocks sbi) + unat (nr_ifree_blocks sbi) + 1 < 2 ^ 31"
    using nw by (simp add: I_def F_def)
  have devi: "\<forall>j. unat (0 :: u32) \<le> j \<and> j < unat (nr_ifree_blocks sbi) \<longrightarrow>
                blocks k1 (unat (nr_istore_blocks sbi) + j + 1) \<noteq> None"
    using dev by (auto simp: blk1 I_def F_def)
  have leni: "unat (nr_ifree_blocks sbi) * SIMPLEFS_BLOCK_SIZE \<le> length (ifree_bitmap sbi)"
    using li by (simp add: F_def)
  from flush_bitmap_ok [OF nwi devi leni, of wait]
  obtain k2 where k2: "flush_bitmap (nr_istore_blocks sbi) 0 (nr_ifree_blocks sbi)
                         (ifree_bitmap sbi) wait k1 = Inr (True, k2)"
    and km2: "kmem_left k2 = kmem_left k1"
    and blk2: "\<And>m. blocks k2 m =
                 (if I + 1 \<le> m \<and> m \<le> I + F
                  then Some (take SIMPLEFS_BLOCK_SIZE
                               (drop ((m - I - 1) * SIMPLEFS_BLOCK_SIZE) (ifree_bitmap sbi)))
                  else blocks k1 m)"
    unfolding I_def F_def by auto
  \<comment> \<open>the block bitmap\<close>
  have base: "unat (nr_istore_blocks sbi + nr_ifree_blocks sbi) = I + F"
    unfolding I_def F_def by (rule unat_add_small) (use nw in \<open>simp add: I_def F_def\<close>)
  have nwb: "unat (nr_istore_blocks sbi + nr_ifree_blocks sbi) + unat (nr_bfree_blocks sbi) + 1 < 2 ^ 31"
    using nw by (simp add: base B_def)
  have devb: "\<forall>j. unat (0 :: u32) \<le> j \<and> j < unat (nr_bfree_blocks sbi) \<longrightarrow>
                blocks k2 (unat (nr_istore_blocks sbi + nr_ifree_blocks sbi) + j + 1) \<noteq> None"
    using dev by (auto simp: base blk2 blk1 B_def)
  have lenb: "unat (nr_bfree_blocks sbi) * SIMPLEFS_BLOCK_SIZE \<le> length (bfree_bitmap sbi)"
    using lb by (simp add: B_def)
  from flush_bitmap_ok [OF nwb devb lenb, of wait]
  obtain k3 where k3: "flush_bitmap (nr_istore_blocks sbi + nr_ifree_blocks sbi) 0 (nr_bfree_blocks sbi)
                         (bfree_bitmap sbi) wait k2 = Inr (True, k3)"
    and km3: "kmem_left k3 = kmem_left k2"
    and blk3: "\<And>m. blocks k3 m =
                 (if I + F + 1 \<le> m \<and> m \<le> I + F + B
                  then Some (take SIMPLEFS_BLOCK_SIZE
                               (drop ((m - (I + F) - 1) * SIMPLEFS_BLOCK_SIZE) (bfree_bitmap sbi)))
                  else blocks k2 m)"
    unfolding base B_def by auto
  have res: "simplefs_sync_fs h k sbi wait = Inr (0, k3)"
    unfolding simplefs_sync_fs_def sb Let_def
    using k2 k3 by (simp add: k1_def disk_sb_def)
  have "blocks k3 0 = Some disk_sb" by (simp add: blk3 blk2 blk1)
  moreover have "blocks k3 (I + j + 1) =
                 Some (take SIMPLEFS_BLOCK_SIZE (drop (j * SIMPLEFS_BLOCK_SIZE) (ifree_bitmap sbi)))"
    if "j < F" for j using that by (simp add: blk3 blk2)
  moreover have "blocks k3 (I + F + j + 1) =
                 Some (take SIMPLEFS_BLOCK_SIZE (drop (j * SIMPLEFS_BLOCK_SIZE) (bfree_bitmap sbi)))"
    if "j < B" for j using that by (simp add: blk3)
  ultimately show ?thesis using res km1 km2 km3 by (auto simp: disk_sb_def)
qed

lemma kzalloc_ok:
  "kmem_left k \<noteq> 0 \<Longrightarrow>
   kzalloc k sz = (Some (replicate sz 0),
                   k\<lparr>klog := klog k @ [Kzalloc sz], kmem_left := kmem_left k - 1\<rparr>)"
  by (simp add: kzalloc_def)

lemma bitmap_bytes:
  assumes "unat (n :: u32) < 2 ^ 20"
  shows "unat (n * of_nat SIMPLEFS_BLOCK_SIZE) = unat n * SIMPLEFS_BLOCK_SIZE"
proof -
  have e: "(of_nat SIMPLEFS_BLOCK_SIZE :: u32) = 4096" by (simp add: SIMPLEFS_BLOCK_SIZE_def)
  have "unat n * 4096 < 2 ^ 20 * 4096" using assms by simp
  then have "unat n * unat (4096 :: u32) < 2 ^ LENGTH(32)" by simp
  then have "unat (n * 4096) = unat n * unat (4096 :: u32)" by (simp only: unat_mult_lem)
  then show ?thesis by (simp add: e SIMPLEFS_BLOCK_SIZE_def)
qed

lemma fill_super_ok:
  fixes h b
  defines "c \<equiv> csb_view h b"
  defines "I \<equiv> unat (nr_istore_blocks c)" and "F \<equiv> unat (nr_ifree_blocks c)"
    and "B \<equiv> unat (nr_bfree_blocks c)"
  assumes b0: "blocks k 0 = Some b" and mg: "magic c = mg"
    and nw: "I + F + B + 1 < 2 ^ 31" and nf: "F < 2 ^ 20" and nb: "B < 2 ^ 20"
    and bi: "\<forall>j<F. blocks k (I + j + 1) = Some (fi j) \<and> length (fi j) = SIMPLEFS_BLOCK_SIZE"
    and bb: "\<forall>j<B. blocks k (I + F + j + 1) = Some (fb j) \<and> length (fb j) = SIMPLEFS_BLOCK_SIZE"
    and mem: "3 \<le> kmem_left k" and ig: "iget_error env = None" and dr: "d_make_root_ok env"
  shows "\<exists>k'. simplefs_fill_super h mg env k =
           Inr (0, Some \<lparr>magic = 0, nr_blocks = nr_blocks c, nr_inodes = nr_inodes c,
                         nr_istore_blocks = nr_istore_blocks c,
                         nr_ifree_blocks = nr_ifree_blocks c,
                         nr_bfree_blocks = nr_bfree_blocks c,
                         nr_free_inodes = nr_free_inodes c,
                         nr_free_blocks = nr_free_blocks c,
                         ifree_bitmap = concat (map fi [0..<F]),
                         bfree_bitmap = concat (map fb [0..<B])\<rparr>, k')"
proof -
  define k0 where "k0 = k\<lparr>klog := klog k @ [Bread SIMPLEFS_SB_BLOCK_NR]\<rparr>"
  have sb: "sb_bread k SIMPLEFS_SB_BLOCK_NR = (Some b, k0)"
    by (simp add: sb_bread_def b0 k0_def SIMPLEFS_SB_BLOCK_NR_def)
  obtain k1 where z1: "kzalloc k0 sizeof_sb_info = (Some (replicate sizeof_sb_info 0), k1)"
    and k1: "blocks k1 = blocks k" "kmem_left k1 = kmem_left k - 1"
    using kzalloc_ok [of k0 sizeof_sb_info] mem by (simp add: k0_def)
  define szi where "szi = unat (nr_ifree_blocks c * of_nat SIMPLEFS_BLOCK_SIZE)"
  have szi: "szi = F * SIMPLEFS_BLOCK_SIZE"
    unfolding szi_def F_def by (rule bitmap_bytes) (use nf in \<open>simp add: F_def\<close>)
  obtain k2 where z2: "kzalloc k1 szi = (Some (replicate szi 0), k2)"
    and k2: "blocks k2 = blocks k" "kmem_left k2 = kmem_left k - 2"
    using kzalloc_ok [of k1 szi] mem k1 by simp
  have nwi: "unat (nr_istore_blocks c) + unat (nr_ifree_blocks c) + 1 < 2 ^ 31"
    using nw by (simp add: I_def F_def)
  have bi': "\<forall>j. unat (0 :: u32) \<le> j \<and> j < unat (nr_ifree_blocks c) \<longrightarrow>
           blocks k2 (unat (nr_istore_blocks c) + j + 1) = Some (fi j)
           \<and> length (fi j) = SIMPLEFS_BLOCK_SIZE"
    using bi by (simp add: k2 I_def F_def)
  have li: "length (replicate szi (0 :: u8)) = unat (nr_ifree_blocks c) * SIMPLEFS_BLOCK_SIZE"
    by (simp add: szi F_def)
  from load_bitmap_ok [OF nwi bi' li]
  obtain k3 where l3: "load_bitmap (nr_istore_blocks c) 0 (nr_ifree_blocks c) (replicate szi 0) k2
                       = Inr (Some (concat (map fi [0..<F])), k3)"
    and k3: "blocks k3 = blocks k" "kmem_left k3 = kmem_left k - 2"
    by (auto simp: k2 F_def)
  define szb where "szb = unat (nr_bfree_blocks c * of_nat SIMPLEFS_BLOCK_SIZE)"
  have szb: "szb = B * SIMPLEFS_BLOCK_SIZE"
    unfolding szb_def B_def by (rule bitmap_bytes) (use nb in \<open>simp add: B_def\<close>)
  obtain k4 where z4: "kzalloc k3 szb = (Some (replicate szb 0), k4)"
    and k4: "blocks k4 = blocks k" "kmem_left k4 = kmem_left k - 3"
    using kzalloc_ok [of k3 szb] mem k3 by simp
  have base: "unat (nr_istore_blocks c + nr_ifree_blocks c) = I + F"
    unfolding I_def F_def by (rule unat_add_small) (use nw in \<open>simp add: I_def F_def\<close>)
  have nwb: "unat (nr_istore_blocks c + nr_ifree_blocks c) + unat (nr_bfree_blocks c) + 1 < 2 ^ 31"
    using nw by (simp add: base B_def)
  have bb': "\<forall>j. unat (0 :: u32) \<le> j \<and> j < unat (nr_bfree_blocks c) \<longrightarrow>
           blocks k4 (unat (nr_istore_blocks c + nr_ifree_blocks c) + j + 1) = Some (fb j)
           \<and> length (fb j) = SIMPLEFS_BLOCK_SIZE"
    using bb by (simp add: k4 base B_def)
  have lb: "length (replicate szb (0 :: u8)) = unat (nr_bfree_blocks c) * SIMPLEFS_BLOCK_SIZE"
    by (simp add: szb B_def)
  from load_bitmap_ok [OF nwb bb' lb]
  obtain k5 where l5: "load_bitmap (nr_istore_blocks c + nr_ifree_blocks c) 0 (nr_bfree_blocks c)
                         (replicate szb 0) k4
                       = Inr (Some (concat (map fb [0..<B])), k5)"
    by (auto simp: B_def)
  show ?thesis
    unfolding simplefs_fill_super_def sb Let_def
    using mg z1 z2 [unfolded szi_def] l3 [unfolded szi_def] z4 [unfolded szb_def]
      l5 [unfolded szb_def] ig dr
    by (simp add: c_def)
qed

lemma length_set_used: "length (bm_buf (set_used r i)) = length (bm_buf r)"
  by (simp add: set_used_def)

lemma set_used_clears:
  assumes "i < 8 * length (bm_buf r)"
  shows "\<not> bit_at (bm_buf (set_used r i)) i"
proof -
  have "i div 8 < length (bm_buf r)" using assms by (rule div8_less)
  then show ?thesis by (simp add: set_used_def bit_at_def bit_simps)
qed

lemma sync_then_mount:
  fixes sbi :: simplefs_sb_mem
  assumes b0: "blocks k 0 = Some b0" and l0: "length b0 = SIMPLEFS_BLOCK_SIZE"
    and mg: "csb_field h b0 0 = mg"
    and dev: "\<forall>m. 1 \<le> m \<and> m \<le> unat (nr_istore_blocks sbi) + unat (nr_ifree_blocks sbi)
                                + unat (nr_bfree_blocks sbi) \<longrightarrow> blocks k m \<noteq> None"
    and li: "length (ifree_bitmap sbi) = unat (nr_ifree_blocks sbi) * SIMPLEFS_BLOCK_SIZE"
    and lb: "length (bfree_bitmap sbi) = unat (nr_bfree_blocks sbi) * SIMPLEFS_BLOCK_SIZE"
    and nw: "unat (nr_istore_blocks sbi) + unat (nr_ifree_blocks sbi)
               + unat (nr_bfree_blocks sbi) + 1 < 2 ^ 31"
    and nf: "unat (nr_ifree_blocks sbi) < 2 ^ 20" and nb: "unat (nr_bfree_blocks sbi) < 2 ^ 20"
    and mem: "3 \<le> kmem_left k" and ig: "iget_error env = None" and dr: "d_make_root_ok env"
  shows "\<exists>k1 k2. simplefs_sync_fs h k sbi wait = Inr (0, k1)
            \<and> simplefs_fill_super h mg env k1 = Inr (0, Some (sbi\<lparr>magic := 0\<rparr>), k2)"
proof -
  let ?I = "unat (nr_istore_blocks sbi)" and ?F = "unat (nr_ifree_blocks sbi)"
  let ?B = "unat (nr_bfree_blocks sbi)"
  define b1 where "b1 = take 4 b0
                @ concat (map (mem_bytes h 4)
                    [nr_blocks sbi, nr_inodes sbi, nr_istore_blocks sbi, nr_ifree_blocks sbi,
                     nr_bfree_blocks sbi, nr_free_inodes sbi, nr_free_blocks sbi])
                @ drop 32 b0"
  define fi where "fi j = take SIMPLEFS_BLOCK_SIZE (drop (j * SIMPLEFS_BLOCK_SIZE) (ifree_bitmap sbi))" for j
  define fb where "fb j = take SIMPLEFS_BLOCK_SIZE (drop (j * SIMPLEFS_BLOCK_SIZE) (bfree_bitmap sbi))" for j
  from sync_fs_ok [OF b0 dev li lb nw, of h wait]
  obtain k1 where s: "simplefs_sync_fs h k sbi wait = Inr (0, k1)"
    and km: "kmem_left k1 = kmem_left k" and k10: "blocks k1 0 = Some b1"
    and k1i: "\<And>j. j < ?F \<Longrightarrow> blocks k1 (?I + j + 1) = Some (fi j)"
    and k1b: "\<And>j. j < ?B \<Longrightarrow> blocks k1 (?I + ?F + j + 1) = Some (fb j)"
    unfolding b1_def fi_def fb_def by blast
  have l4: "length (take 4 b0) = 4" using l0 by (simp add: SIMPLEFS_BLOCK_SIZE_def)
  have "b1 = concat [take 4 b0, mem_bytes h 4 (nr_blocks sbi), mem_bytes h 4 (nr_inodes sbi),
                mem_bytes h 4 (nr_istore_blocks sbi), mem_bytes h 4 (nr_ifree_blocks sbi),
                mem_bytes h 4 (nr_bfree_blocks sbi), mem_bytes h 4 (nr_free_inodes sbi),
                mem_bytes h 4 (nr_free_blocks sbi)] @ drop 32 b0"
    by (simp add: b1_def)
  then have "csb_view h b1 =
     \<lparr>magic = mem_word h (take 4 b0), nr_blocks = mem_word h (mem_bytes h 4 (nr_blocks sbi)),
      nr_inodes = mem_word h (mem_bytes h 4 (nr_inodes sbi)),
      nr_istore_blocks = mem_word h (mem_bytes h 4 (nr_istore_blocks sbi)),
      nr_ifree_blocks = mem_word h (mem_bytes h 4 (nr_ifree_blocks sbi)),
      nr_bfree_blocks = mem_word h (mem_bytes h 4 (nr_bfree_blocks sbi)),
      nr_free_inodes = mem_word h (mem_bytes h 4 (nr_free_inodes sbi)),
      nr_free_blocks = mem_word h (mem_bytes h 4 (nr_free_blocks sbi))\<rparr>"
    using l4 by (simp only: csb_view_fields length_mem_bytes)
  moreover have "mem_word h (take 4 b0) = mg" using mg by (simp add: csb_field_def)
  ultimately have cv: "csb_view h b1 =
     \<lparr>magic = mg, nr_blocks = nr_blocks sbi, nr_inodes = nr_inodes sbi,
      nr_istore_blocks = nr_istore_blocks sbi, nr_ifree_blocks = nr_ifree_blocks sbi,
      nr_bfree_blocks = nr_bfree_blocks sbi, nr_free_inodes = nr_free_inodes sbi,
      nr_free_blocks = nr_free_blocks sbi\<rparr>"
    by (simp only: mem_word_mem_bytes32)
  have lfi: "length (fi j) = SIMPLEFS_BLOCK_SIZE" if "j < ?F" for j
  proof -
    have "(j + 1) * SIMPLEFS_BLOCK_SIZE \<le> ?F * SIMPLEFS_BLOCK_SIZE"
      using that by (intro mult_le_mono1) simp
    then show ?thesis using li by (simp add: fi_def)
  qed
  have lfb: "length (fb j) = SIMPLEFS_BLOCK_SIZE" if "j < ?B" for j
  proof -
    have "(j + 1) * SIMPLEFS_BLOCK_SIZE \<le> ?B * SIMPLEFS_BLOCK_SIZE"
      using that by (intro mult_le_mono1) simp
    then show ?thesis using lb by (simp add: fb_def)
  qed
  have ci: "concat (map fi [0..<?F]) = ifree_bitmap sbi"
    unfolding fi_def concat_slices using li by simp
  have cb: "concat (map fb [0..<?B]) = bfree_bitmap sbi"
    unfolding fb_def concat_slices using lb by simp
  have "\<exists>k2. simplefs_fill_super h mg env k1 =
           Inr (0, Some \<lparr>magic = 0, nr_blocks = nr_blocks (csb_view h b1),
                         nr_inodes = nr_inodes (csb_view h b1),
                         nr_istore_blocks = nr_istore_blocks (csb_view h b1),
                         nr_ifree_blocks = nr_ifree_blocks (csb_view h b1),
                         nr_bfree_blocks = nr_bfree_blocks (csb_view h b1),
                         nr_free_inodes = nr_free_inodes (csb_view h b1),
                         nr_free_blocks = nr_free_blocks (csb_view h b1),
                         ifree_bitmap = concat (map fi [0..<unat (nr_ifree_blocks (csb_view h b1))]),
                         bfree_bitmap = concat (map fb [0..<unat (nr_bfree_blocks (csb_view h b1))])\<rparr>, k2)"
  proof (rule fill_super_ok [OF k10])
    show "magic (csb_view h b1) = mg" by (simp add: cv)
    show "unat (nr_istore_blocks (csb_view h b1)) + unat (nr_ifree_blocks (csb_view h b1))
            + unat (nr_bfree_blocks (csb_view h b1)) + 1 < 2 ^ 31"
      using nw by (simp add: cv)
    show "unat (nr_ifree_blocks (csb_view h b1)) < 2 ^ 20" using nf by (simp add: cv)
    show "unat (nr_bfree_blocks (csb_view h b1)) < 2 ^ 20" using nb by (simp add: cv)
    show "\<forall>j<unat (nr_ifree_blocks (csb_view h b1)).
            blocks k1 (unat (nr_istore_blocks (csb_view h b1)) + j + 1) = Some (fi j)
            \<and> length (fi j) = SIMPLEFS_BLOCK_SIZE"
      using k1i lfi by (simp add: cv)
    show "\<forall>j<unat (nr_bfree_blocks (csb_view h b1)).
            blocks k1 (unat (nr_istore_blocks (csb_view h b1))
                         + unat (nr_ifree_blocks (csb_view h b1)) + j + 1) = Some (fb j)
            \<and> length (fb j) = SIMPLEFS_BLOCK_SIZE"
      using k1b lfb by (simp add: cv)
    show "3 \<le> kmem_left k1" using mem km by simp
  qed (rule ig dr)+
  then obtain k2 where "simplefs_fill_super h mg env k1 = Inr (0, Some (sbi\<lparr>magic := 0\<rparr>), k2)"
    by (auto simp: cv ci cb)
  with s show ?thesis by blast
qed

text \<open>
  C9. Take a mounted image (block 0 readable with the expected magic number, the blocks of
  the inode store and of the two bitmaps present on the device) and an in-memory
  superblock whose bitmaps have the sizes that its block counts say, with counts small
  enough for the index arithmetic of the loops (their sum below \<open>2^31\<close>, each bitmap
  below \<open>2^20\<close> blocks). Mark inode bit \<open>i\<close> and block bit \<open>j\<close> used, both within the
  logical counts. Then \<open>simplefs_sync_fs\<close> returns 0, and a following
  \<open>simplefs_fill_super\<close> whose allocations, \<open>simplefs_iget\<close> and \<open>d_make_root\<close>
  succeed returns 0 with both bitmaps equal to the in-memory ones, so bit \<open>i\<close> and bit
  \<open>j\<close> test as used: each bitmap block is written to the block index it is read from.
  This holds with and without \<open>wait\<close>.
\<close>

theorem sync_then_reload_keeps_used_bit:
  fixes sbi :: simplefs_sb_mem
  assumes "blocks k 0 = Some b0" and "length b0 = SIMPLEFS_BLOCK_SIZE"
    and "csb_field h b0 0 = mg"
    and "\<forall>m. 1 \<le> m \<and> m \<le> unat (nr_istore_blocks sbi) + unat (nr_ifree_blocks sbi)
                                + unat (nr_bfree_blocks sbi) \<longrightarrow> blocks k m \<noteq> None"
    and "length (ifree_bitmap sbi) = unat (nr_ifree_blocks sbi) * SIMPLEFS_BLOCK_SIZE"
    and "length (bfree_bitmap sbi) = unat (nr_bfree_blocks sbi) * SIMPLEFS_BLOCK_SIZE"
    and "unat (nr_istore_blocks sbi) + unat (nr_ifree_blocks sbi)
               + unat (nr_bfree_blocks sbi) + 1 < 2 ^ 31"
    and "unat (nr_ifree_blocks sbi) < 2 ^ 20" and "unat (nr_bfree_blocks sbi) < 2 ^ 20"
    and "3 \<le> kmem_left k" and "iget_error env = None" and "d_make_root_ok env"
    and "i < unat (nr_inodes sbi)" and "unat (nr_inodes sbi) \<le> 8 * length (ifree_bitmap sbi)"
    and "j < unat (nr_blocks sbi)" and "unat (nr_blocks sbi) \<le> 8 * length (bfree_bitmap sbi)"
  shows "\<exists>k1 k2 sbi2.
           simplefs_sync_fs h k (with_used sbi i j) wait = Inr (0, k1)
           \<and> simplefs_fill_super h mg env k1 = Inr (0, Some sbi2, k2)
           \<and> ifree_bitmap sbi2 = ifree_bitmap (with_used sbi i j)
           \<and> bfree_bitmap sbi2 = bfree_bitmap (with_used sbi i j)
           \<and> test \<lparr>bm_buf = ifree_bitmap sbi2, logical_count = unat (nr_inodes sbi2)\<rparr> i = Inr False
           \<and> test \<lparr>bm_buf = bfree_bitmap sbi2, logical_count = unat (nr_blocks sbi2)\<rparr> j = Inr False"
proof -
  let ?s = "with_used sbi i j"
  have f: "nr_istore_blocks ?s = nr_istore_blocks sbi" "nr_ifree_blocks ?s = nr_ifree_blocks sbi"
    "nr_bfree_blocks ?s = nr_bfree_blocks sbi" "nr_inodes ?s = nr_inodes sbi"
    "nr_blocks ?s = nr_blocks sbi"
    "length (ifree_bitmap ?s) = length (ifree_bitmap sbi)"
    "length (bfree_bitmap ?s) = length (bfree_bitmap sbi)"
    by (simp_all add: with_used_def length_set_used)
  have "\<exists>k1 k2. simplefs_sync_fs h k ?s wait = Inr (0, k1)
            \<and> simplefs_fill_super h mg env k1 = Inr (0, Some (?s\<lparr>magic := 0\<rparr>), k2)"
    using assms(1-12) by (intro sync_then_mount) (simp_all add: f)
  then obtain k1 k2 where r: "simplefs_sync_fs h k ?s wait = Inr (0, k1)"
    "simplefs_fill_super h mg env k1 = Inr (0, Some (?s\<lparr>magic := 0\<rparr>), k2)" by blast
  have "i < 8 * length (bm_buf \<lparr>bm_buf = ifree_bitmap sbi, logical_count = unat (nr_inodes sbi)\<rparr>)"
    using assms(13,14) by simp
  from set_used_clears [OF this]
  have ui: "\<not> bit_at (ifree_bitmap ?s) i" by (simp add: with_used_def)
  have "j < 8 * length (bm_buf \<lparr>bm_buf = bfree_bitmap sbi, logical_count = unat (nr_blocks sbi)\<rparr>)"
    using assms(15,16) by simp
  from set_used_clears [OF this]
  have uj: "\<not> bit_at (bfree_bitmap ?s) j" by (simp add: with_used_def)
  have "test \<lparr>bm_buf = ifree_bitmap (?s\<lparr>magic := 0\<rparr>),
               logical_count = unat (nr_inodes (?s\<lparr>magic := 0\<rparr>))\<rparr> i = Inr False"
    using ui assms(13) by (simp add: test_def f)
  moreover have "test \<lparr>bm_buf = bfree_bitmap (?s\<lparr>magic := 0\<rparr>),
               logical_count = unat (nr_blocks (?s\<lparr>magic := 0\<rparr>))\<rparr> j = Inr False"
    using uj assms(15) by (simp add: test_def f)
  ultimately show ?thesis using r
    by (intro exI [of _ k1] exI [of _ k2] exI [of _ "?s\<lparr>magic := 0\<rparr>"]) simp
qed

theorem sync_then_reload_keeps_used_bit_witness:
  "\<exists>k1 k2 sbi2.
     simplefs_sync_fs LittleEndian
       \<lparr>blocks = (\<lambda>m. if m = 0 then Some ([0x11, 0xCE, 0xAD, 0xDE] @ replicate 4092 0)
                       else if m < 101 then Some (replicate 4096 0) else None),
        klog = [], kmem_left = 3\<rparr>
       (with_used
          \<lparr>magic = 0, nr_blocks = 101, nr_inodes = 112, nr_istore_blocks = 2,
           nr_ifree_blocks = 1, nr_bfree_blocks = 1, nr_free_inodes = 111, nr_free_blocks = 96,
           ifree_bitmap = replicate 4096 0xFF, bfree_bitmap = replicate 4096 0xFF\<rparr> 5 5)
       True = Inr (0, k1)
     \<and> simplefs_fill_super LittleEndian 0xDEADCE11 \<lparr>iget_error = None, d_make_root_ok = True\<rparr> k1
         = Inr (0, Some sbi2, k2)
     \<and> test \<lparr>bm_buf = ifree_bitmap sbi2, logical_count = unat (nr_inodes sbi2)\<rparr> 5 = Inr False
     \<and> test \<lparr>bm_buf = bfree_bitmap sbi2, logical_count = unat (nr_blocks sbi2)\<rparr> 5 = Inr False"
proof -
  let ?k = "\<lparr>blocks = (\<lambda>m. if m = 0 then Some ([0x11, 0xCE, 0xAD, 0xDE] @ replicate 4092 0)
                       else if m < 101 then Some (replicate 4096 0) else None),
        klog = [], kmem_left = 3\<rparr>"
  let ?sbi = "\<lparr>magic = 0, nr_blocks = 101, nr_inodes = 112, nr_istore_blocks = 2,
           nr_ifree_blocks = 1, nr_bfree_blocks = 1, nr_free_inodes = 111, nr_free_blocks = 96,
           ifree_bitmap = replicate 4096 0xFF, bfree_bitmap = replicate 4096 0xFF\<rparr>"
  let ?env = "\<lparr>iget_error = None, d_make_root_ok = True\<rparr>"
  have "\<exists>k1 k2 sbi2.
           simplefs_sync_fs LittleEndian ?k (with_used ?sbi 5 5) True = Inr (0, k1)
           \<and> simplefs_fill_super LittleEndian 0xDEADCE11 ?env k1 = Inr (0, Some sbi2, k2)
           \<and> ifree_bitmap sbi2 = ifree_bitmap (with_used ?sbi 5 5)
           \<and> bfree_bitmap sbi2 = bfree_bitmap (with_used ?sbi 5 5)
           \<and> test \<lparr>bm_buf = ifree_bitmap sbi2, logical_count = unat (nr_inodes sbi2)\<rparr> 5 = Inr False
           \<and> test \<lparr>bm_buf = bfree_bitmap sbi2, logical_count = unat (nr_blocks sbi2)\<rparr> 5 = Inr False"
    by (rule sync_then_reload_keeps_used_bit
          [where ?b0.0 = "[0x11, 0xCE, 0xAD, 0xDE] @ replicate 4092 0"])
       (simp_all add: csb_field_def mem_word_def SIMPLEFS_BLOCK_SIZE_def)
  then show ?thesis by blast
qed


section \<open>A complete run of the format tool\<close>

text \<open>
  With four allocations and five writes granted, the tool formats a regular file of 101
  blocks on a little-endian host and exits with 0: the image is the superblock, the two
  blocks of the inode store (the root inode's block pointer is 5), the inode bitmap with
  bit 0 in use and the block bitmap with bits 0 to 5 in use.
\<close>

lemma root_block_101: "first_data_block LittleEndian
    \<lparr>magic = mg, nr_blocks = 101, nr_inodes = 112, nr_istore_blocks = 2,
      nr_ifree_blocks = 1, nr_bfree_blocks = 1, nr_free_inodes = 111, nr_free_blocks = 96\<rparr> = 5"
  by (simp add: first_data_block_def le32toh_def)

lemma main_formats_101:
  "main LittleEndian 56 0xDEADCE11 2
     \<lparr>open_ok = True, fstat_ok = True, st_size = 101 * 4096, is_blk = False, blk_size = None\<rparr>
     \<lparr>image = [], wr_left = 5, heap_left = 4, stderr = []\<rparr>
   = Inr (0, \<lparr>image = [superblock_bytes LittleEndian
                           \<lparr>magic = 0xDEADCE11, nr_blocks = 101, nr_inodes = 112,
                            nr_istore_blocks = 2, nr_ifree_blocks = 1, nr_bfree_blocks = 1,
                            nr_free_inodes = 111, nr_free_blocks = 96\<rparr>,
                         root_inode_block LittleEndian 5,
                         replicate SIMPLEFS_BLOCK_SIZE 0,
                         used_block 1,
                         used_block 6],
              wr_left = 0, heap_left = 0, stderr = []\<rparr>)"
proof -
  let ?sb = "\<lparr>magic = 0xDEADCE11, nr_blocks = 101, nr_inodes = 112,
                            nr_istore_blocks = 2, nr_ifree_blocks = 1, nr_bfree_blocks = 1,
                            nr_free_inodes = 111, nr_free_blocks = 96\<rparr> :: simplefs_sb_info"
  have n: "nr_used_bits LittleEndian ?sb = 6" by (simp add: nr_used_bits_def le32toh_def)
  then have n': "nr_used_bits LittleEndian ?sb \<le> 8 * SIMPLEFS_BLOCK_SIZE"
    by (simp add: SIMPLEFS_BLOCK_SIZE_def)
  show ?thesis
    by (simp add: main_def device_size_def write_superblock_def sb_101 write_inode_store_def
          root_block_101 malloc_closed write_fd_closed write_loop_closed Let_def
          write_ifree_blocks_closed write_bfree_blocks_closed [OF n'] n write_data_blocks_def
          le32toh_def SIMPLEFS_BLOCK_SIZE_def)
qed

end
